theory Spec2Isabelle
  imports Main "HOL-Library.Word" "HOL-Library.Monad_Syntax"
begin

unbundle bit_operations_syntax

section \<open>Types of LIN\_master.h\<close>

type_synonym uint8_t = "8 word"
type_synonym uint16_t = "16 word"

datatype LIN_version_t = LIN_V1 | LIN_V2

datatype LIN_frame_t = LIN_MASTER_REQUEST | LIN_SLAVE_RESPONSE

datatype LIN_status_t = LIN_STATE_OFF | LIN_STATE_IDLE | LIN_STATE_BREAK | LIN_STATE_FRAME

text \<open>The enumerator values of \<open>LIN_status_t\<close>, as the header assigns them.\<close>

fun LIN_status_val :: "LIN_status_t \<Rightarrow> nat" where
  "LIN_status_val LIN_STATE_OFF = 0"
| "LIN_status_val LIN_STATE_IDLE = 1"
| "LIN_status_val LIN_STATE_BREAK = 2"
| "LIN_status_val LIN_STATE_FRAME = 3"

text \<open>
  \<open>LIN_error_t\<close> is used as a set of bit flags: the member \<open>error\<close> holds the bitwise
  OR of the enumerators below, so it is a byte here.
\<close>

type_synonym LIN_error_t = uint8_t

definition LIN_SUCCESS :: LIN_error_t where "LIN_SUCCESS = 0x00"
definition LIN_ERROR_STATE :: LIN_error_t where "LIN_ERROR_STATE = 0x01"
definition LIN_ERROR_ECHO :: LIN_error_t where "LIN_ERROR_ECHO = 0x02"
definition LIN_ERROR_TIMEOUT :: LIN_error_t where "LIN_ERROR_TIMEOUT = 0x04"
definition LIN_ERROR_CHK :: LIN_error_t where "LIN_ERROR_CHK = 0x08"
definition LIN_ERROR_MISC :: LIN_error_t where "LIN_ERROR_MISC = 0x80"

text \<open>
  A \<open>decoder_t\<close> is a pointer to a caller's function; the model keeps the pointer as
  an opaque token and records every invocation in \<open>rx_calls\<close> below.
\<close>

datatype decoder_t = Decoder nat

text \<open>The two handlers the engine registers with the task scheduler.\<close>

datatype Task = wrapperSend | wrapperReceive

section \<open>The serial port\<close>

text \<open>
  What the engine uses of \<open>HardwareSerial\<close>: \<open>available()\<close> is the length of
  \<open>rx_fifo\<close>, \<open>read()\<close> takes its head, \<open>write\<close> appends to \<open>tx_log\<close>,
  \<open>begin(rate)\<close> sets \<open>baud\<close> (on AVR the engine halves and restores the rate through
  the U2X bit instead), \<open>setTimeout\<close> sets \<open>timeout\<close>.
\<close>

record HardwareSerial =
  rx_fifo :: "uint8_t list"
  tx_log :: "uint8_t list"
  baud :: nat
  timeout :: nat
  opened :: bool

text \<open>\<open>read()\<close> returns -1 on an empty queue, which the engine stores as the byte 0xFF.\<close>

fun serial_read :: "uint8_t list \<Rightarrow> uint8_t \<times> uint8_t list" where
  "serial_read [] = (0xFF, [])"
| "serial_read (b # q) = (b, q)"

text \<open>
  The busy-wait loops \<open>while (!done(available()) && (now() - tStart) < bound);\<close>.
  Bytes reach the queue from outside while the loop spins; the schedule lists, for each
  evaluation of the loop condition made before the clock passes the bound, the bytes
  that arrive after it. The loop leaves when the condition on the queue holds or when
  the schedule is used up (the bound has elapsed).
\<close>

fun wait_rx :: "(uint8_t list \<Rightarrow> bool) \<Rightarrow> uint8_t list \<Rightarrow> uint8_t list list \<Rightarrow> uint8_t list" where
  "wait_rx ready q [] = q"
| "wait_rx ready q (a # as) = (if ready q then q else wait_rx ready (q @ a) as)"

section \<open>Buffers\<close>

text \<open>
  \<open>bufTx\<close> and \<open>bufRx\<close> are arrays of 12 bytes. An access outside an array (or outside
  the caller's data) is undefined behaviour in C++: the operations below return \<open>None\<close>
  there, and so does every function that runs into one.
\<close>

definition buf_set :: "uint8_t list \<Rightarrow> nat \<Rightarrow> uint8_t \<Rightarrow> uint8_t list option" where
  "buf_set buf i v = (if i < length buf then Some (buf[i := v]) else None)"

definition buf_get :: "uint8_t list \<Rightarrow> nat \<Rightarrow> uint8_t option" where
  "buf_get buf i = (if i < length buf then Some (buf ! i) else None)"

definition memcpy_buf :: "uint8_t list \<Rightarrow> nat \<Rightarrow> uint8_t list \<Rightarrow> nat \<Rightarrow> uint8_t list option" where
  "memcpy_buf dst off src n =
    (if off + n \<le> length dst \<and> n \<le> length src
     then Some (take off dst @ take n src @ drop (off + n) dst) else None)"

definition memset_buf :: "uint8_t list \<Rightarrow> uint8_t \<Rightarrow> nat \<Rightarrow> uint8_t list option" where
  "memset_buf buf v n = (if n \<le> length buf then Some (replicate n v @ drop n buf) else None)"

text \<open>\<open>memcmp(a, b, n) != 0\<close>\<close>

definition memcmp_ne :: "uint8_t list \<Rightarrow> uint8_t list \<Rightarrow> nat \<Rightarrow> bool option" where
  "memcmp_ne a b n =
    (if n \<le> length a \<and> n \<le> length b then Some (take n a \<noteq> take n b) else None)"

section \<open>Frame codec\<close>

definition protectID :: "uint8_t \<Rightarrow> uint8_t" where
  "protectID id0 =
    (let pid = id0 AND 0x3F;
         tmp = (pid XOR drop_bit 1 pid XOR drop_bit 2 pid XOR drop_bit 4 pid) AND 0x01;
         pid = pid OR push_bit 6 tmp;
         tmp = NOT (drop_bit 1 pid XOR drop_bit 3 pid XOR drop_bit 4 pid XOR drop_bit 5 pid) AND 0x01;
         pid = pid OR push_bit 7 tmp
     in pid)"

text \<open>One round of the loop body: \<open>chk += data[i]; if (chk>255) chk -= 255;\<close>\<close>

definition chk_add :: "uint16_t \<Rightarrow> uint8_t \<Rightarrow> uint16_t" where
  "chk_add chk d = (let c = chk + ucast d in if c > 255 then c - 255 else c)"

fun chk_loop :: "uint16_t \<Rightarrow> uint8_t list \<Rightarrow> uint16_t" where
  "chk_loop chk [] = chk"
| "chk_loop chk (d # ds) = chk_loop (chk_add chk d) ds"

text \<open>
  \<open>data\<close> is what the pointer argument points to; the loop reads its first
  \<open>numData\<close> bytes.
\<close>

definition checksum :: "LIN_version_t \<Rightarrow> uint8_t \<Rightarrow> uint8_t \<Rightarrow> uint8_t list \<Rightarrow> uint8_t option" where
  "checksum ver id0 numData data =
    (if unat numData \<le> length data then
       (let pid = protectID id0;
            chk = (if \<not> (ver = LIN_V1 \<or> pid = 0x3C \<or> pid = 0x7D) then ucast pid else 0x00);
            chk = chk_loop chk (take (unat numData) data)
        in Some (0xFF - ucast chk))
     else None)"

text \<open>
  The checksum as the specification words it: a 16-bit accumulator, seeded with the
  protected ID for version 2 frames whose protected ID is not 0x3C or 0x7D, that adds
  the payload bytes one by one with end-around carry; the result is the one's
  complement of its low byte.
\<close>

definition end_around_add :: "nat \<Rightarrow> nat \<Rightarrow> nat" where
  "end_around_add acc b = (let sum = (acc + b) mod 2 ^ 16 in if sum > 255 then sum - 255 else sum)"

definition Checksum_spec :: "LIN_version_t \<Rightarrow> nat \<Rightarrow> nat list \<Rightarrow> nat" where
  "Checksum_spec ver protectedID payload =
    (let seed = (if ver = LIN_V2 \<and> protectedID \<noteq> 0x3C \<and> protectedID \<noteq> 0x7D
                 then protectedID else 0);
         acc = foldl end_around_add seed payload
     in 255 - acc mod 256)"

text \<open>
  The value the accumulator holds after the loop, in closed form, from the sum of its
  seed and the bytes added: 0 for the sum 0, and otherwise the residue modulo 255 taken
  in the range 1 to 255.
\<close>

definition chk_norm :: "nat \<Rightarrow> nat" where
  "chk_norm n = (if n = 0 then 0 else (n - 1) mod 255 + 1)"

section \<open>The engine\<close>

text \<open>
  The members of class \<open>LIN_Master\<close>, with the port \<open>pSerial\<close> points to, and the two
  traces of what the engine does to its surroundings: \<open>tasks\<close>, the calls of
  \<open>Tasks_Add(handler, 0, delay)\<close>, and \<open>rx_calls\<close>, the calls of the receive handler
  with their arguments (the length and the bytes the pointer argument points to).
\<close>

record LIN_Master =
  pSerial :: HardwareSerial
  baudrate :: uint16_t
  version :: LIN_version_t
  background :: bool
  durationBreak :: uint8_t
  frameType :: LIN_frame_t
  bufTx :: "uint8_t list"
  lenTx :: uint8_t
  bufRx :: "uint8_t list"
  lenRx :: uint8_t
  durationFrame :: uint8_t
  state :: LIN_status_t
  rx_handler :: decoder_t
  error :: LIN_error_t
  tasks :: "(Task \<times> uint8_t) list"
  rx_calls :: "(decoder_t \<times> uint8_t \<times> uint8_t list) list"

definition begin_LIN_Master :: "uint16_t \<Rightarrow> LIN_version_t \<Rightarrow> bool \<Rightarrow> LIN_Master \<Rightarrow> LIN_Master" where
  "begin_LIN_Master Baudrate Version Background s =
    s\<lparr>baudrate := Baudrate, version := Version, background := Background,
      durationBreak := (if Baudrate < 12000 then 2 else 1),
      durationFrame := (if Baudrate < 12000 then 13 else 7),
      error := LIN_SUCCESS, state := LIN_STATE_IDLE,
      pSerial := (pSerial s)\<lparr>opened := True, baud := unat Baudrate, timeout := 2\<rparr>\<rparr>"

definition end_LIN_Master :: "LIN_Master \<Rightarrow> LIN_Master" where
  "end_LIN_Master s =
    s\<lparr>error := LIN_SUCCESS, state := LIN_STATE_OFF,
      pSerial := (pSerial s)\<lparr>opened := False, timeout := 1000\<rparr>\<rparr>"

text \<open>\<open>inline bool getState(void) { return state; }\<close>: the enumerator converted to bool.\<close>

definition getState :: "LIN_Master \<Rightarrow> bool" where
  "getState s = (LIN_status_val (state s) \<noteq> 0)"

text \<open>
  The three statements every error branch ends with:
  \<open>error = error | flag; state = LIN_STATE_IDLE; memset(bufRx, 0, lenRx);\<close>
\<close>

definition abort_frame :: "LIN_error_t \<Rightarrow> LIN_Master \<Rightarrow> LIN_Master option" where
  "abort_frame flag s =
    do {
      rx \<leftarrow> memset_buf (bufRx s) 0 (unat (lenRx s));
      Some (s\<lparr>error := error s OR flag, state := LIN_STATE_IDLE, bufRx := rx\<rparr>)
    }"

text \<open>\<open>for (i=1; i<lenRx; i++) bufRx[i] = pSerial->read();\<close>\<close>

function rx_copy :: "nat \<Rightarrow> nat \<Rightarrow> uint8_t list \<Rightarrow> uint8_t list \<Rightarrow> (uint8_t list \<times> uint8_t list) option" where
  "rx_copy i n buf q =
    (if i < n then
       (case buf_set buf i (fst (serial_read q)) of
          None \<Rightarrow> None
        | Some buf' \<Rightarrow> rx_copy (Suc i) n buf' (snd (serial_read q)))
     else Some (buf, q))"
  by pat_completeness auto
termination
  by (relation "measure (\<lambda>(i, n, buf, q). n - i)") auto

definition handlerSend :: "uint8_t list list \<Rightarrow> LIN_Master \<Rightarrow> LIN_Master option" where
  "handlerSend polls s =
    (if state s \<noteq> LIN_STATE_BREAK then abort_frame LIN_ERROR_STATE s
     else
       let q = wait_rx (\<lambda>q. length q \<noteq> 0) (rx_fifo (pSerial s)) polls;
           s = s\<lparr>pSerial := (pSerial s)\<lparr>rx_fifo := q\<rparr>\<rparr>
       in if length q = 0 then abort_frame LIN_ERROR_TIMEOUT s
          else do {
            rx \<leftarrow> buf_set (bufRx s) 0 (fst (serial_read q));
            let s = s\<lparr>bufRx := rx, pSerial := (pSerial s)\<lparr>rx_fifo := snd (serial_read q)\<rparr>\<rparr>;
            if rx ! 0 \<noteq> 0x00 then abort_frame LIN_ERROR_ECHO s
            else if 1 \<le> unat (lenTx s) \<and> unat (lenTx s) \<le> length (bufTx s) then
              let port = (pSerial s)\<lparr>baud := unat (baudrate s),
                           tx_log := tx_log (pSerial s) @ take (unat (lenTx s) - 1) (drop 1 (bufTx s))\<rparr>;
                  s = s\<lparr>pSerial := port, state := LIN_STATE_FRAME\<rparr>
              in Some (if background s
                       then s\<lparr>tasks := tasks s @ [(wrapperReceive, durationFrame s)]\<rparr>
                       else s)
            else None
          })"

definition handlerReceive :: "uint8_t list list \<Rightarrow> LIN_Master \<Rightarrow> LIN_Master option" where
  "handlerReceive polls s =
    (if state s \<noteq> LIN_STATE_FRAME then abort_frame LIN_ERROR_STATE s
     else
       let q = wait_rx (\<lambda>q. int (length q) = uint (lenRx s) - 1) (rx_fifo (pSerial s)) polls;
           s = s\<lparr>pSerial := (pSerial s)\<lparr>rx_fifo := q\<rparr>\<rparr>
       in if int (length q) \<noteq> uint (lenRx s) - 1 then abort_frame LIN_ERROR_TIMEOUT s
          else do {
            (rx, q') \<leftarrow> rx_copy 1 (unat (lenRx s)) (bufRx s) q;
            let s = s\<lparr>bufRx := rx, pSerial := (pSerial s)\<lparr>rx_fifo := q'\<rparr>\<rparr>;
            if frameType s = LIN_MASTER_REQUEST then do {
              ne \<leftarrow> memcmp_ne (bufRx s) (bufTx s) (unat (lenTx s));
              if ne then abort_frame LIN_ERROR_ECHO s
              else Some (s\<lparr>state := LIN_STATE_IDLE\<rparr>)
            }
            else do {
              ne \<leftarrow> memcmp_ne (bufRx s) (bufTx s) 3;
              if ne then abort_frame LIN_ERROR_ECHO s
              else do {
                id0 \<leftarrow> buf_get (bufRx s) 2;
                let numData = lenRx s - 4;
                let data = drop 3 (bufRx s);
                chk \<leftarrow> (if lenRx s = 0 then None else buf_get (bufRx s) (unat (lenRx s) - 1));
                chk_calc \<leftarrow> checksum (version s) id0 numData data;
                if chk \<noteq> chk_calc then abort_frame LIN_ERROR_CHK s
                else Some (s\<lparr>rx_calls := rx_calls s @ [(rx_handler s, numData, take (unat numData) data)],
                            state := LIN_STATE_IDLE\<rparr>)
              }
            }
          })"

text \<open>
  The requests return \<open>LIN_ERROR_STATE\<close> from their error branch; the other paths
  reach the end of the function without a \<open>return\<close>, so the result carries no value
  there (\<open>None\<close> in the first component). In blocking operation the request runs the
  two handlers itself and takes the schedules of their waits as \<open>env\<close>.
\<close>

definition sendMasterRequest ::
  "uint8_t \<Rightarrow> uint8_t \<Rightarrow> uint8_t list \<Rightarrow> uint8_t list list \<times> uint8_t list list \<Rightarrow> LIN_Master
     \<Rightarrow> (LIN_error_t option \<times> LIN_Master) option" where
  "sendMasterRequest id0 numData data env s =
    (if state s \<noteq> LIN_STATE_IDLE then do {
       s \<leftarrow> abort_frame LIN_ERROR_STATE s;
       Some (Some LIN_ERROR_STATE, s)
     }
     else do {
       let s = s\<lparr>frameType := LIN_MASTER_REQUEST\<rparr>;
       let pid = protectID id0;
       tx \<leftarrow> buf_set (bufTx s) 0 0x00;
       tx \<leftarrow> buf_set tx 1 0x55;
       tx \<leftarrow> buf_set tx 2 pid;
       tx \<leftarrow> memcpy_buf tx 3 data (unat numData);
       chk \<leftarrow> checksum (version s) pid numData data;
       tx \<leftarrow> buf_set tx (3 + unat numData) chk;
       let s = s\<lparr>bufTx := tx, lenTx := numData + 4\<rparr>;
       let s = s\<lparr>lenRx := lenTx s\<rparr>;
       let port = (pSerial s)\<lparr>rx_fifo := [], baud := unat (baudrate s) div 2\<rparr>;
       let port = port\<lparr>tx_log := tx_log port @ [bufTx s ! 0]\<rparr>;
       let s = s\<lparr>pSerial := port, state := LIN_STATE_BREAK\<rparr>;
       if background s then Some (None, s\<lparr>tasks := tasks s @ [(wrapperSend, durationBreak s)]\<rparr>)
       else do {
         s \<leftarrow> handlerSend (fst env) s;
         s \<leftarrow> handlerReceive (snd env) s;
         Some (None, s)
       }
     })"

definition receiveSlaveResponse ::
  "uint8_t \<Rightarrow> uint8_t \<Rightarrow> decoder_t
     \<Rightarrow> uint8_t list list \<times> uint8_t list list \<times> uint8_t list list \<Rightarrow> LIN_Master
     \<Rightarrow> (LIN_error_t option \<times> LIN_Master) option" where
  "receiveSlaveResponse id0 numData Rx_handler env s =
    (if state s \<noteq> LIN_STATE_IDLE then do {
       s \<leftarrow> abort_frame LIN_ERROR_STATE s;
       Some (Some LIN_ERROR_STATE, s)
     }
     else do {
       let s = s\<lparr>frameType := LIN_SLAVE_RESPONSE\<rparr>;
       let pid = protectID id0;
       tx \<leftarrow> buf_set (bufTx s) 0 0x00;
       tx \<leftarrow> buf_set tx 1 0x55;
       tx \<leftarrow> buf_set tx 2 pid;
       let s = s\<lparr>bufTx := tx, lenTx := 3, lenRx := 4 + numData\<rparr>;
       let port = (pSerial s)\<lparr>rx_fifo := [], baud := unat (baudrate s) div 2\<rparr>;
       let s = s\<lparr>rx_handler := Rx_handler\<rparr>;
       let port = port\<lparr>tx_log := tx_log port @ [bufTx s ! 0]\<rparr>;
       let s = s\<lparr>pSerial := port, state := LIN_STATE_BREAK\<rparr>;
       if background s then Some (None, s\<lparr>tasks := tasks s @ [(wrapperSend, durationBreak s)]\<rparr>)
       else do {
         s \<leftarrow> handlerSend (fst env) s;
         let q = wait_rx (\<lambda>q. int (length q) = uint (lenRx s) - 1) (rx_fifo (pSerial s)) (fst (snd env));
         let s = s\<lparr>pSerial := (pSerial s)\<lparr>rx_fifo := q\<rparr>\<rparr>;
         s \<leftarrow> handlerReceive (snd (snd env)) s;
         Some (None, s)
       }
     })"

section \<open>Notions used in the statements\<close>

text \<open>
  The buffers have their declared size of 12 bytes, the two lengths do not exceed it,
  and while a frame is in flight the lengths are those of a frame: at least the header
  to send, at least header and checksum to receive.
\<close>

definition engine_ok :: "LIN_Master \<Rightarrow> bool" where
  "engine_ok s =
    (length (bufTx s) = 12 \<and> length (bufRx s) = 12 \<and>
     unat (lenTx s) \<le> 12 \<and> unat (lenRx s) \<le> 12 \<and>
     (state s = LIN_STATE_OFF \<or> state s = LIN_STATE_IDLE \<or>
      3 \<le> unat (lenTx s) \<and> 4 \<le> unat (lenRx s)))"

text \<open>The queue as the wait of \<open>handlerSend\<close> and of \<open>handlerReceive\<close> leaves it.\<close>

definition break_wait :: "uint8_t list list \<Rightarrow> LIN_Master \<Rightarrow> uint8_t list" where
  "break_wait polls s = wait_rx (\<lambda>q. length q \<noteq> 0) (rx_fifo (pSerial s)) polls"

definition frame_wait :: "uint8_t list list \<Rightarrow> LIN_Master \<Rightarrow> uint8_t list" where
  "frame_wait polls s =
    wait_rx (\<lambda>q. int (length q) = uint (lenRx s) - 1) (rx_fifo (pSerial s)) polls"

text \<open>
  \<open>bufRx\<close> after \<open>handlerReceive\<close> has copied the queue behind the break echo
  (when the queue holds the \<open>lenRx - 1\<close> bytes the handler asks for).
\<close>

definition rx_frame :: "uint8_t list list \<Rightarrow> LIN_Master \<Rightarrow> uint8_t list" where
  "rx_frame polls s = take 1 (bufRx s) @ frame_wait polls s @ drop (unat (lenRx s)) (bufRx s)"

text \<open>
  \<open>lenRx\<close> is the receive buffer length of the class declaration: the first \<open>lenRx\<close>
  bytes of \<open>bufRx\<close> are the ones the transaction uses, and the ones \<open>memset\<close>
  clears.
\<close>

definition rx_zeroed :: "LIN_Master \<Rightarrow> bool" where
  "rx_zeroed s = (take (unat (lenRx s)) (bufRx s) = replicate (unat (lenRx s)) 0x00)"

definition failed_with :: "LIN_error_t \<Rightarrow> LIN_Master \<Rightarrow> LIN_Master \<Rightarrow> bool" where
  "failed_with flag s s' =
    (error s' = error s OR flag \<and> state s' = LIN_STATE_IDLE \<and> rx_zeroed s')"

text \<open>
  What \<open>handlerReceive\<close> asks of a slave response before it calls the receive handler:
  the engine awaits a frame body of a slave response, the queue holds the \<open>lenRx - 1\<close>
  bytes awaited, break and header read back as sent, and the last byte received is the
  checksum of the ID and data received.
\<close>

definition response_ok :: "uint8_t list list \<Rightarrow> LIN_Master \<Rightarrow> bool" where
  "response_ok polls s =
    (state s = LIN_STATE_FRAME \<and> frameType s = LIN_SLAVE_RESPONSE \<and>
     int (length (frame_wait polls s)) = uint (lenRx s) - 1 \<and>
     take 3 (rx_frame polls s) = take 3 (bufTx s) \<and>
     checksum (version s) (rx_frame polls s ! 2) (lenRx s - 4) (drop 3 (rx_frame polls s))
       = Some (rx_frame polls s ! (unat (lenRx s) - 1)))"

section \<open>Sample states\<close>

text \<open>
  An engine object before \<open>begin\<close>: the library's instances are global objects, so
  their members start as zero. For \<open>version\<close> and \<open>frameType\<close> the value 0 is no
  enumerator; in the tests the code makes of them (\<open>version == LIN_V1\<close>,
  \<open>frameType == LIN_MASTER_REQUEST\<close>) it behaves as \<open>LIN_V2\<close> and as
  \<open>LIN_SLAVE_RESPONSE\<close>.
\<close>

definition LIN_Master_0 :: LIN_Master where
  "LIN_Master_0 =
    \<lparr>pSerial = \<lparr>rx_fifo = [], tx_log = [], baud = 0, timeout = 1000, opened = False\<rparr>,
     baudrate = 0, version = LIN_V2, background = False, durationBreak = 0,
     frameType = LIN_SLAVE_RESPONSE,
     bufTx = [0, 0, 0, 0, 0, 0, 0, 0, 0, 0, 0, 0], lenTx = 0,
     bufRx = [0, 0, 0, 0, 0, 0, 0, 0, 0, 0, 0, 0], lenRx = 0,
     durationFrame = 0, state = LIN_STATE_OFF,
     rx_handler = Decoder 0, error = LIN_SUCCESS, tasks = [], rx_calls = []\<rparr>"

text \<open>
  A background engine at 19200 Baud, version 2, after one completed master request
  \<open>sendMasterRequest(0x10, 2, {1, 2})\<close>.
\<close>

definition idle_engine :: LIN_Master where
  "idle_engine =
    \<lparr>pSerial = \<lparr>rx_fifo = [], tx_log = [0x00, 0x55, 0x50, 0x01, 0x02, 0xAC], baud = 19200,
                 timeout = 2, opened = True\<rparr>,
     baudrate = 19200, version = LIN_V2, background = True, durationBreak = 1,
     frameType = LIN_MASTER_REQUEST,
     bufTx = [0x00, 0x55, 0x50, 0x01, 0x02, 0xAC, 0, 0, 0, 0, 0, 0], lenTx = 6,
     bufRx = [0x00, 0x55, 0x50, 0x01, 0x02, 0xAC, 0, 0, 0, 0, 0, 0], lenRx = 6,
     durationFrame = 7, state = LIN_STATE_IDLE, rx_handler = Decoder 0,
     error = LIN_SUCCESS, tasks = [(wrapperSend, 1), (wrapperReceive, 7)], rx_calls = []\<rparr>"

text \<open>The same engine after a second \<open>sendMasterRequest(0x10, 2, {1, 2})\<close> has sent its break.\<close>

definition busy_engine :: LIN_Master where
  "busy_engine =
    idle_engine\<lparr>pSerial := \<lparr>rx_fifo = [], tx_log = [0x00, 0x55, 0x50, 0x01, 0x02, 0xAC, 0x00],
                             baud = 9600, timeout = 2, opened = True\<rparr>,
                 state := LIN_STATE_BREAK,
                 tasks := [(wrapperSend, 1), (wrapperReceive, 7), (wrapperSend, 1)]\<rparr>"

text \<open>
  The engine \<open>idle_engine\<close> after \<open>receiveSlaveResponse(0x20, 0, handler)\<close> has sent
  its break: a frame of four bytes is awaited.
\<close>

definition short_engine :: LIN_Master where
  "short_engine =
    busy_engine\<lparr>frameType := LIN_SLAVE_RESPONSE,
                 bufTx := [0x00, 0x55, 0x20, 0x01, 0x02, 0xAC, 0, 0, 0, 0, 0, 0], lenTx := 3,
                 lenRx := 4, rx_handler := Decoder 1\<rparr>"

text \<open>\<open>busy_engine\<close> after \<open>handlerSend\<close> has read the break echo and sent the frame.\<close>

definition frame_engine :: LIN_Master where
  "frame_engine =
    busy_engine\<lparr>pSerial := \<lparr>rx_fifo = [],
                    tx_log = [0x00, 0x55, 0x50, 0x01, 0x02, 0xAC, 0x00, 0x55, 0x50, 0x01, 0x02, 0xAC],
                    baud = 19200, timeout = 2, opened = True\<rparr>,
                 state := LIN_STATE_FRAME,
                 tasks := [(wrapperSend, 1), (wrapperReceive, 7), (wrapperSend, 1),
                           (wrapperReceive, 7)]\<rparr>"

text \<open>
  The engine \<open>idle_engine\<close> after \<open>receiveSlaveResponse(0x20, 4, handler)\<close> and
  \<open>handlerSend\<close>: the header is sent, the response of a slave is awaited.
\<close>

definition response_engine :: LIN_Master where
  "response_engine =
    frame_engine\<lparr>pSerial := \<lparr>rx_fifo = [],
                    tx_log = [0x00, 0x55, 0x50, 0x01, 0x02, 0xAC, 0x00, 0x55, 0x20],
                    baud = 19200, timeout = 2, opened = True\<rparr>,
                  frameType := LIN_SLAVE_RESPONSE,
                  bufTx := [0x00, 0x55, 0x20, 0x01, 0x02, 0xAC, 0, 0, 0, 0, 0, 0], lenTx := 3,
                  lenRx := 8, rx_handler := Decoder 1\<rparr>"

section \<open>Reachable states\<close>

text \<open>
  The states an engine object can be in: it starts as \<open>LIN_Master_0\<close>; the caller
  calls \<open>begin\<close>, \<open>end\<close> and the requests, with a payload length in the documented
  range 0 to 8 and data that holds as many bytes; the scheduler (or a blocking request)
  calls the handlers; bytes arrive on the port at any time.
\<close>

inductive reachable :: "LIN_Master \<Rightarrow> bool" where
  reach_fresh: "reachable LIN_Master_0"
| reach_begin: "reachable s \<Longrightarrow> reachable (begin_LIN_Master b v bg s)"
| reach_end: "reachable s \<Longrightarrow> reachable (end_LIN_Master s)"
| reach_send:
    "reachable s \<Longrightarrow> unat numData \<le> 8 \<Longrightarrow> unat numData \<le> length data \<Longrightarrow>
     sendMasterRequest fid numData data env s = Some (r, s') \<Longrightarrow> reachable s'"
| reach_receive:
    "reachable s \<Longrightarrow> unat numData \<le> 8 \<Longrightarrow>
     receiveSlaveResponse fid numData h env' s = Some (r, s') \<Longrightarrow> reachable s'"
| reach_handlerSend: "reachable s \<Longrightarrow> handlerSend polls s = Some s' \<Longrightarrow> reachable s'"
| reach_handlerReceive: "reachable s \<Longrightarrow> handlerReceive polls s = Some s' \<Longrightarrow> reachable s'"
| reach_arrival:
    "reachable s \<Longrightarrow>
     reachable (s\<lparr>pSerial := (pSerial s)\<lparr>rx_fifo := rx_fifo (pSerial s) @ bytes\<rparr>\<rparr>)"

section \<open>Protected identifier\<close>

lemma word8_eq_bits:
  "((x::8 word) = y) \<longleftrightarrow> (bit x 0 = bit y 0 \<and> bit x 1 = bit y 1 \<and> bit x 2 = bit y 2 \<and> bit x 3 = bit y 3
     \<and> bit x 4 = bit y 4 \<and> bit x 5 = bit y 5 \<and> bit x 6 = bit y 6 \<and> bit x 7 = bit y 7)"
proof
  assume "x = y"
  then show "bit x 0 = bit y 0 \<and> bit x 1 = bit y 1 \<and> bit x 2 = bit y 2 \<and> bit x 3 = bit y 3
     \<and> bit x 4 = bit y 4 \<and> bit x 5 = bit y 5 \<and> bit x 6 = bit y 6 \<and> bit x 7 = bit y 7"
    by simp
next
  assume r: "bit x 0 = bit y 0 \<and> bit x 1 = bit y 1 \<and> bit x 2 = bit y 2 \<and> bit x 3 = bit y 3
     \<and> bit x 4 = bit y 4 \<and> bit x 5 = bit y 5 \<and> bit x 6 = bit y 6 \<and> bit x 7 = bit y 7"
  show "x = y"
  proof (rule bit_word_eqI)
    fix n assume "n < LENGTH(8)"
    then have "n \<in> {0,1,2,3,4,5,6,7}" by auto
    with r show "bit x n = bit y n" by auto
  qed
qed

lemma protectID_low_bits:
  "bit (protectID i) 0 = bit i 0" "bit (protectID i) (Suc 0) = bit i (Suc 0)" "bit (protectID i) 2 = bit i 2"
  "bit (protectID i) 3 = bit i 3" "bit (protectID i) 4 = bit i 4" "bit (protectID i) 5 = bit i 5"
  unfolding protectID_def Let_def
  by (simp_all add: bit_simps)

lemma protectID_bit6: "bit (protectID i) 6 = (bit i 0 \<noteq> (bit i 1 \<noteq> (bit i 2 \<noteq> bit i 4)))"
  unfolding protectID_def Let_def
  by (auto simp add: bit_simps)

lemma protectID_bit7: "bit (protectID i) 7 = (\<not> (bit i 1 \<noteq> (bit i 3 \<noteq> (bit i 4 \<noteq> bit i 5))))"
  unfolding protectID_def Let_def
  by (auto simp add: bit_simps)

lemma protectID_low6: "protectID i AND 0x3F = i AND 0x3F"
  by (simp add: word8_eq_bits bit_simps protectID_low_bits)

lemma protectID_idem: "protectID (protectID i) = protectID i"
  by (simp add: word8_eq_bits protectID_low_bits protectID_bit6 protectID_bit7)

lemma protectID_ne_0: "protectID i \<noteq> 0"
  by (auto simp add: word8_eq_bits protectID_low_bits protectID_bit6 protectID_bit7)

lemma protectID_ne_FF: "protectID i \<noteq> 0xFF"
  by (simp add: word8_eq_bits protectID_low_bits protectID_bit6 protectID_bit7 bit_simps)

lemma protectID_eq_iff: "protectID i = protectID j \<longleftrightarrow> i AND 0x3F = j AND 0x3F"
  apply (simp add: word8_eq_bits protectID_low_bits protectID_bit6 protectID_bit7 bit_simps)
  apply auto
  done

lemma protectID_eq_3C: "protectID i = 0x3C \<longleftrightarrow> i AND 0x3F = 0x3C"
  apply (simp add: word8_eq_bits protectID_low_bits protectID_bit6 protectID_bit7 bit_simps)
  apply auto
  done

lemma protectID_eq_7D: "protectID i = 0x7D \<longleftrightarrow> i AND 0x3F = 0x3D"
  apply (simp add: word8_eq_bits protectID_low_bits protectID_bit6 protectID_bit7 bit_simps)
  apply auto
  done

section \<open>Checksum\<close>

lemma unat_chk_add:
  assumes "unat c \<le> 255"
  shows "unat (chk_add c d) = (if unat c + unat d > 255 then unat c + unat d - 255 else unat c + unat d)"
proof -
  have d: "unat d < 256" using unsigned_less [of d, where ?'a = nat] by simp
  have u: "unat (ucast d :: 16 word) = unat d"
    using d by (simp add: unsigned_ucast_eq take_bit_nat_eq_self_iff)
  have s: "unat (c + ucast d) = unat c + unat d"
    using assms d u by (simp add: unat_word_ariths)
  show ?thesis
  proof (cases "unat c + unat d > 255")
    case True
    then have gt: "c + ucast d > 255" using s by (simp add: word_less_nat_alt)
    then have le: "(255 :: 16 word) \<le> c + ucast d" by simp
    have "unat (c + ucast d - 255) = unat (c + ucast d) - unat (255 :: 16 word)"
      using le by (rule unat_sub)
    with gt s True show ?thesis by (simp add: chk_add_def Let_def)
  next
    case False
    then have "\<not> c + ucast d > 255" using s by (simp add: word_less_nat_alt)
    with s False show ?thesis by (simp add: chk_add_def Let_def)
  qed
qed

lemma unat_chk_add_le:
  assumes "unat c \<le> 255"
  shows "unat (chk_add c d) \<le> 255"
proof -
  have d: "unat d < 256" using unsigned_less [of d, where ?'a = nat] by simp
  with assms show ?thesis by (auto simp add: unat_chk_add)
qed

lemma chk_norm_step:
  fixes a b S :: nat
  shows "(if (if a + b > 255 then a + b - 255 else a + b) + S = 0 then 0
          else ((if a + b > 255 then a + b - 255 else a + b) + S - 1) mod 255 + 1)
       = (if a + (b + S) = 0 then 0 else (a + (b + S) - 1) mod 255 + 1)"
proof (cases "a + b > 255")
  case True
  define x where "x = a + b - 256 + S"
  have l: "a + b - 255 + S - 1 = x" using True by (simp add: x_def)
  have r: "a + (b + S) - 1 = x + 255" using True by (simp add: x_def)
  have nz: "a + b - 255 + S \<noteq> 0" "a + (b + S) \<noteq> 0" using True by linarith+
  show ?thesis using True nz by (simp only: if_True if_False l r mod_add_self2)
next
  case False
  then show ?thesis by (simp add: add.assoc)
qed

lemma unat_chk_loop:
  "unat c \<le> 255 \<Longrightarrow>
   unat (chk_loop c ds) =
     (if unat c + sum_list (map unat ds) = 0 then 0
      else (unat c + sum_list (map unat ds) - 1) mod 255 + 1)"
proof (induction ds arbitrary: c)
  case Nil
  then show ?case by auto
next
  case (Cons d ds)
  have le: "unat (chk_add c d) \<le> 255" using Cons.prems by (rule unat_chk_add_le)
  have d: "unat d < 256" using unsigned_less [of d, where ?'a = nat] by simp
  have "unat (chk_loop (chk_add c d) ds) =
     (if unat (chk_add c d) + sum_list (map unat ds) = 0 then 0
      else (unat (chk_add c d) + sum_list (map unat ds) - 1) mod 255 + 1)"
    by (rule Cons.IH [OF le])
  also have "\<dots> = (if unat c + (unat d + sum_list (map unat ds)) = 0 then 0
      else (unat c + (unat d + sum_list (map unat ds)) - 1) mod 255 + 1)"
    unfolding unat_chk_add [OF Cons.prems]
    by (rule chk_norm_step)
  finally show ?case by (simp add: add.assoc)
qed

lemma unat_chk_loop_le: "unat c \<le> 255 \<Longrightarrow> unat (chk_loop c ds) \<le> 255"
  by (induction ds arbitrary: c) (simp_all add: unat_chk_add_le)

lemma unat_byte_less: "unat (d :: uint8_t) < 256"
  using unsigned_less [of d, where ?'a = nat] by simp

lemma unat_chk_add_spec:
  assumes "unat c \<le> 255"
  shows "unat (chk_add c d) = end_around_add (unat c) (unat d)"
proof -
  have "unat c + unat d < 2 ^ 16" using assms unat_byte_less [of d] by simp
  then have "(unat c + unat d) mod 2 ^ 16 = unat c + unat d" by (rule mod_less)
  then show ?thesis using assms by (simp add: unat_chk_add end_around_add_def Let_def)
qed

lemma unat_chk_loop_foldl:
  "unat c \<le> 255 \<Longrightarrow> unat (chk_loop c ds) = foldl end_around_add (unat c) (map unat ds)"
proof (induction ds arbitrary: c)
  case Nil
  show ?case by simp
next
  case (Cons d ds)
  have "unat (chk_add c d) \<le> 255" using Cons.prems by (rule unat_chk_add_le)
  then show ?case using Cons.IH [of "chk_add c d"] Cons.prems
    by (simp add: unat_chk_add_spec)
qed

lemma unat_complement: "unat (0xFF - ucast (c :: uint16_t) :: uint8_t) = 255 - unat c mod 256"
proof -
  define x :: uint8_t where "x = ucast c"
  have ux: "unat x = unat c mod 256"
    by (simp add: x_def unsigned_ucast_eq take_bit_eq_mod)
  have "x \<le> 0xFF" using unat_byte_less [of x] by (simp add: word_le_nat_alt)
  then have "unat (0xFF - x) = unat (0xFF :: uint8_t) - unat x" by (rule unat_sub)
  then show ?thesis using ux by (simp add: x_def)
qed

lemma unat_pid_le: "unat (ucast (p :: uint8_t) :: uint16_t) = unat p"
  using unat_byte_less [of p] by (simp add: unsigned_ucast_eq take_bit_nat_eq_self_iff)

lemma unat_chk_loop_norm:
  "unat c \<le> 255 \<Longrightarrow> unat (chk_loop c ds) = chk_norm (unat c + sum_list (map unat ds))"
  by (simp add: unat_chk_loop chk_norm_def)

lemma mod255_eq_iff:
  fixes x y :: nat
  assumes "x < y" "y - x \<le> 255"
  shows "(x mod 255 = y mod 255) = (y = x + 255)"
proof
  assume "x mod 255 = y mod 255"
  then have "y mod 255 = x mod 255" by simp
  then have "255 dvd y - x" using assms by (simp add: mod_eq_dvd_iff_nat)
  then obtain k where k: "y - x = 255 * k" by (rule dvdE)
  have "k = 1" using k assms by (cases k) auto
  then show "y = x + 255" using k assms by simp
next
  assume "y = x + 255"
  then show "x mod 255 = y mod 255" by simp
qed

lemma chk_norm_pos: "0 < n \<Longrightarrow> 0 < chk_norm n"
  by (simp add: chk_norm_def)

lemma chk_norm_payload_lt:
  fixes R a b :: nat
  assumes "a < b" "b \<le> 255"
  shows "(chk_norm (R + a) = chk_norm (R + b)) = (0 < R \<and> a = 0 \<and> b = 255)"
proof (cases "R + a = 0")
  case True
  then have "chk_norm (R + a) = 0" by (simp add: chk_norm_def)
  moreover have "0 < chk_norm (R + b)" using assms by (intro chk_norm_pos) simp
  ultimately show ?thesis using True by simp
next
  case False
  then have pos: "0 < R + a" "0 < R + b" using assms by simp_all
  have nz: "R + a \<noteq> 0" "R + b \<noteq> 0" using pos by simp_all
  have "(chk_norm (R + a) = chk_norm (R + b)) = ((R + a - 1) mod 255 = (R + b - 1) mod 255)"
    by (simp only: chk_norm_def nz if_False add_right_cancel)
  also have "\<dots> = (R + b - 1 = R + a - 1 + 255)"
    using assms pos by (intro mod255_eq_iff) auto
  also have "\<dots> = (0 < R \<and> a = 0 \<and> b = 255)"
    using assms pos by auto
  finally show ?thesis .
qed

lemma chk_norm_payload:
  fixes R a b :: nat
  assumes "a \<noteq> b" "a \<le> 255" "b \<le> 255"
  shows "(chk_norm (R + a) = chk_norm (R + b)) = (0 < R \<and> (a = 0 \<and> b = 255 \<or> a = 255 \<and> b = 0))"
proof (cases "a < b")
  case True
  then show ?thesis using chk_norm_payload_lt [of a b R] assms by auto
next
  case False
  then have "b < a" using assms by simp
  then have "(chk_norm (R + b) = chk_norm (R + a)) = (0 < R \<and> b = 0 \<and> a = 255)"
    using assms by (intro chk_norm_payload_lt) auto
  then show ?thesis using False by auto
qed

lemma chk_norm_seed_lt:
  fixes S a b :: nat
  assumes "a < b" "b < 255"
  shows "chk_norm (a + S) \<noteq> chk_norm (b + S)"
  using chk_norm_payload_lt [of a b S] assms by (simp add: add.commute)

lemma chk_norm_seed:
  fixes S a b :: nat
  assumes "a < 255" "b < 255"
  shows "(chk_norm (a + S) = chk_norm (b + S)) = (a = b)"
proof (cases a b rule: linorder_cases)
  case less
  then show ?thesis using chk_norm_seed_lt [of a b S] assms by simp
next
  case equal
  then show ?thesis by simp
next
  case greater
  then show ?thesis using chk_norm_seed_lt [of b a S] assms by auto
qed

lemma chk_norm_le: "chk_norm n \<le> 255"
proof (cases "n = 0")
  case True
  then show ?thesis by (simp add: chk_norm_def)
next
  case False
  have "(n - 1) mod 255 < 255" by simp
  then have "(n - 1) mod 255 + 1 \<le> 255" by linarith
  then show ?thesis using False by (simp only: chk_norm_def if_False)
qed

lemma checksum_closed_form:
  assumes "unat numData \<le> length data"
  shows "\<exists>c. checksum ver id0 numData data = Some c \<and>
     unat c = 255 - chk_norm ((if ver = LIN_V1 \<or> protectID id0 = 0x3C \<or> protectID id0 = 0x7D
                               then 0 else unat (protectID id0))
                              + sum_list (map unat (take (unat numData) data)))"
proof -
  let ?pid = "protectID id0"
  let ?seed = "(if \<not> (ver = LIN_V1 \<or> ?pid = 0x3C \<or> ?pid = 0x7D) then ucast ?pid else 0x00) :: uint16_t"
  have seed: "unat ?seed = (if ver = LIN_V1 \<or> ?pid = 0x3C \<or> ?pid = 0x7D then 0 else unat ?pid)"
    by (simp add: unat_pid_le)
  have le: "unat ?seed \<le> 255" using unat_byte_less [of ?pid] by (simp add: unat_pid_le)
  have "unat (chk_loop ?seed (take (unat numData) data)) \<le> 255"
    using le by (rule unat_chk_loop_le)
  then have "unat (chk_loop ?seed (take (unat numData) data)) mod 256
     = unat (chk_loop ?seed (take (unat numData) data))" by simp
  then have "unat (0xFF - ucast (chk_loop ?seed (take (unat numData) data)) :: uint8_t)
      = 255 - chk_norm (unat ?seed + sum_list (map unat (take (unat numData) data)))"
    by (simp only: unat_complement unat_chk_loop_norm [OF le])
  then show ?thesis using assms unfolding seed
    by (simp add: checksum_def Let_def)
qed

lemma checksum_eq_iff:
  assumes "unat n \<le> length d" "unat n' \<le> length d'"
  shows "(checksum ver i n d = checksum ver' i' n' d') =
    (chk_norm ((if ver = LIN_V1 \<or> protectID i = 0x3C \<or> protectID i = 0x7D then 0 else unat (protectID i))
          + sum_list (map unat (take (unat n) d)))
     = chk_norm ((if ver' = LIN_V1 \<or> protectID i' = 0x3C \<or> protectID i' = 0x7D then 0 else unat (protectID i'))
          + sum_list (map unat (take (unat n') d'))))"
proof -
  obtain c where c: "checksum ver i n d = Some c"
    "unat c = 255 - chk_norm ((if ver = LIN_V1 \<or> protectID i = 0x3C \<or> protectID i = 0x7D then 0 else unat (protectID i))
          + sum_list (map unat (take (unat n) d)))"
    using checksum_closed_form [OF assms(1)] by blast
  obtain c' where c': "checksum ver' i' n' d' = Some c'"
    "unat c' = 255 - chk_norm ((if ver' = LIN_V1 \<or> protectID i' = 0x3C \<or> protectID i' = 0x7D then 0 else unat (protectID i'))
          + sum_list (map unat (take (unat n') d')))"
    using checksum_closed_form [OF assms(2)] by blast
  have "(c = c') = (unat c = unat c')" by (simp add: word_unat_eq_iff)
  then show ?thesis
    using c c' chk_norm_le [of "(if ver = LIN_V1 \<or> protectID i = 0x3C \<or> protectID i = 0x7D then 0 else unat (protectID i))
          + sum_list (map unat (take (unat n) d))"]
      chk_norm_le [of "(if ver' = LIN_V1 \<or> protectID i' = 0x3C \<or> protectID i' = 0x7D then 0 else unat (protectID i'))
          + sum_list (map unat (take (unat n') d'))"]
    by (simp only: option.inject) arith
qed

lemma sum_unat_update:
  assumes "i < length xs"
  shows "sum_list (map unat (xs[i := b])) = sum_list (map unat (xs[i := 0])) + unat (b :: uint8_t)"
  using assms by (simp add: upd_conv_take_nth_drop)

lemma sum_unat_nth:
  assumes "i < length xs"
  shows "sum_list (map unat xs) = sum_list (map unat (xs[i := 0])) + unat (xs ! i :: uint8_t)"
  using sum_unat_update [OF assms, of "xs ! i"] by simp

lemma sum_unat_rest_0:
  assumes "i < length xs"
  shows "(sum_list (map unat (xs[i := 0 :: uint8_t])) = 0) = (\<forall>j<length xs. j \<noteq> i \<longrightarrow> xs ! j = 0)"
proof -
  have "(sum_list (map unat (xs[i := 0])) = 0) = (\<forall>j<length (xs[i := 0]). (xs[i := 0]) ! j = 0)"
    by (simp add: all_set_conv_all_nth unat_eq_0)
  also have "\<dots> = (\<forall>j<length xs. j \<noteq> i \<longrightarrow> xs ! j = 0)"
    using assms by (auto simp: nth_list_update split: if_splits)
  finally show ?thesis .
qed

lemma checksum_payload_corruption:
  assumes n: "unat numData \<le> length data" and i: "i < unat numData" and b: "b \<noteq> data ! i"
  shows "(checksum ver id0 numData (data[i := b]) = checksum ver id0 numData data) =
     ((data ! i = 0x00 \<and> b = 0xFF \<or> data ! i = 0xFF \<and> b = 0x00) \<and>
      \<not> ((ver = LIN_V1 \<or> protectID id0 = 0x3C \<or> protectID id0 = 0x7D) \<and>
         (\<forall>j<unat numData. j \<noteq> i \<longrightarrow> data ! j = 0x00)))"
proof -
  define xs where "xs = take (unat numData) data"
  define seed where "seed = (if ver = LIN_V1 \<or> protectID id0 = 0x3C \<or> protectID id0 = 0x7D
                             then 0 else unat (protectID id0))"
  define rest where "rest = sum_list (map unat (xs[i := 0]))"
  have len: "length xs = unat numData" using n by (simp add: xs_def)
  have ixs: "i < length xs" using i len by simp
  have nth: "xs ! j = data ! j" if "j < unat numData" for j using that by (simp add: xs_def)
  have upd: "take (unat numData) (data[i := b]) = xs[i := b]" by (simp add: xs_def take_update_swap)
  have s1: "sum_list (map unat (xs[i := b])) = rest + unat b"
    unfolding rest_def using ixs by (rule sum_unat_update)
  have s0: "sum_list (map unat xs) = rest + unat (data ! i)"
    unfolding rest_def using sum_unat_nth [OF ixs] nth [OF i] by simp
  have ne: "unat b \<noteq> unat (data ! i)" using b by (simp add: word_unat_eq_iff)
  have bytes: "unat b \<le> 255" "unat (data ! i) \<le> 255"
    using unat_byte_less [of b] unat_byte_less [of "data ! i"] by simp_all
  have z: "(unat w = 0) = (w = 0)" "(unat w = 255) = (w = 0xFF)" for w :: uint8_t
    by (simp_all add: word_unat_eq_iff)
  have seed0: "(seed = 0) = (ver = LIN_V1 \<or> protectID id0 = 0x3C \<or> protectID id0 = 0x7D)"
    using protectID_ne_0 [of id0] by (simp add: seed_def unat_eq_0)
  have rest0: "(rest = 0) = (\<forall>j<unat numData. j \<noteq> i \<longrightarrow> data ! j = 0)"
    unfolding rest_def sum_unat_rest_0 [OF ixs] len using nth by auto
  have "(checksum ver id0 numData (data[i := b]) = checksum ver id0 numData data) =
        (chk_norm ((seed + rest) + unat b) = chk_norm ((seed + rest) + unat (data ! i)))"
    using n by (simp add: checksum_eq_iff upd s1 s0 seed_def xs_def [symmetric] add.assoc)
  also have "\<dots> = (0 < seed + rest \<and> (unat b = 0 \<and> unat (data ! i) = 255 \<or> unat b = 255 \<and> unat (data ! i) = 0))"
    using ne bytes by (rule chk_norm_payload)
  also have "\<dots> = ((data ! i = 0x00 \<and> b = 0xFF \<or> data ! i = 0xFF \<and> b = 0x00) \<and> \<not> (seed = 0 \<and> rest = 0))"
    unfolding z by auto
  finally show ?thesis unfolding seed0 rest0 .
qed

lemma checksum_id_corruption:
  assumes n: "unat numData \<le> length data"
  shows "(checksum ver id1 numData data = checksum ver id0 numData data) =
     (ver = LIN_V1 \<or> protectID id1 = protectID id0 \<or>
      (protectID id1 = 0x3C \<or> protectID id1 = 0x7D) \<and> (protectID id0 = 0x3C \<or> protectID id0 = 0x7D))"
proof -
  define seed where "seed i = (if ver = LIN_V1 \<or> protectID i = 0x3C \<or> protectID i = 0x7D
                             then 0 else unat (protectID i))" for i
  have lt: "seed i < 255" for i
  proof -
    have "unat (protectID i) \<noteq> 255" using protectID_ne_FF [of i] by (simp add: word_unat_eq_iff)
    then show ?thesis using unat_byte_less [of "protectID i"] by (simp add: seed_def)
  qed
  have nz: "unat (protectID i) \<noteq> 0" for i using protectID_ne_0 [of i] by (simp add: unat_eq_0)
  have "(checksum ver id1 numData data = checksum ver id0 numData data) =
        (chk_norm (seed id1 + sum_list (map unat (take (unat numData) data)))
         = chk_norm (seed id0 + sum_list (map unat (take (unat numData) data))))"
    using n by (simp add: checksum_eq_iff seed_def)
  also have "\<dots> = (seed id1 = seed id0)"
    using lt [of id1] lt [of id0] by (rule chk_norm_seed)
  also have "\<dots> = (ver = LIN_V1 \<or> protectID id1 = protectID id0 \<or>
      (protectID id1 = 0x3C \<or> protectID id1 = 0x7D) \<and> (protectID id0 = 0x3C \<or> protectID id0 = 0x7D))"
    using nz [of id0] nz [of id1] by (auto simp: seed_def word_unat_eq_iff)
  finally show ?thesis .
qed

section \<open>Claims about the frame codec\<close>

text \<open>
  Claim C3: for every 8-bit input, \<open>protectID\<close> leaves the low six bits unchanged,
  sets bit 6 to \<open>id0 ^ id1 ^ id2 ^ id4\<close> and bit 7 to \<open>NOT (id1 ^ id3 ^ id4 ^ id5)\<close>
  (on truth values \<open>\<noteq>\<close> is exclusive or), and applying it to an already protected ID
  gives that protected ID again.
\<close>

theorem protectID_parity_idempotent:
  "protectID id0 AND 0x3F = id0 AND 0x3F
   \<and> bit (protectID id0) 6 = (bit id0 0 \<noteq> (bit id0 1 \<noteq> (bit id0 2 \<noteq> bit id0 4)))
   \<and> bit (protectID id0) 7 = (\<not> (bit id0 1 \<noteq> (bit id0 3 \<noteq> (bit id0 4 \<noteq> bit id0 5))))
   \<and> protectID (protectID id0) = protectID id0"
  by (simp only: protectID_low6 protectID_bit6 protectID_bit7 protectID_idem simp_thms)

text \<open>
  Claim C2: for every ID and every payload the caller's data holds (of any length the
  byte \<open>numData\<close> can give, so of 0 to 8 bytes in particular), \<open>checksum\<close> returns the
  checksum the specification describes, computed from the protected ID and the first
  \<open>numData\<close> bytes; for version 1 and for the protected IDs 0x3C and 0x7D it is the
  classic checksum over the data bytes alone, whatever the configured version.
\<close>

theorem checksum_refines_spec:
  assumes "unat numData \<le> length data"
  shows "(\<exists>c. checksum ver fid numData data = Some c \<and>
            unat c = Checksum_spec ver (unat (protectID fid)) (map unat (take (unat numData) data)))
       \<and> (ver = LIN_V1 \<or> protectID fid = 0x3C \<or> protectID fid = 0x7D \<longrightarrow>
           (\<exists>c. checksum ver fid numData data = Some c \<and>
              unat c = 255 - foldl end_around_add 0 (map unat (take (unat numData) data)) mod 256))"
proof -
  let ?pid = "protectID fid"
  let ?seed = "(if \<not> (ver = LIN_V1 \<or> ?pid = 0x3C \<or> ?pid = 0x7D) then ucast ?pid else 0x00) :: uint16_t"
  have v: "(ver = LIN_V2) = (ver \<noteq> LIN_V1)" by (cases ver) simp_all
  have p1: "(unat ?pid = 0x3C) = (?pid = 0x3C)" by (simp add: word_unat_eq_iff)
  have p2: "(unat ?pid = 0x7D) = (?pid = 0x7D)" by (simp add: word_unat_eq_iff)
  have seed: "unat ?seed = (if ver = LIN_V2 \<and> unat ?pid \<noteq> 0x3C \<and> unat ?pid \<noteq> 0x7D then unat ?pid else 0)"
    unfolding p1 p2 v by (simp add: unat_pid_le)
  have le: "unat ?seed \<le> 255" using unat_byte_less [of ?pid] by (simp add: unat_pid_le)
  have "unat (0xFF - ucast (chk_loop ?seed (take (unat numData) data)) :: uint8_t)
      = 255 - foldl end_around_add (unat ?seed) (map unat (take (unat numData) data)) mod 256"
    by (simp only: unat_complement unat_chk_loop_foldl [OF le])
  then have main: "\<exists>c. checksum ver fid numData data = Some c \<and>
            unat c = Checksum_spec ver (unat (protectID fid)) (map unat (take (unat numData) data))"
    using assms seed by (simp add: checksum_def Checksum_spec_def Let_def)
  have "Checksum_spec ver (unat ?pid) payload = 255 - foldl end_around_add 0 payload mod 256"
    if "ver = LIN_V1 \<or> ?pid = 0x3C \<or> ?pid = 0x7D" for payload
    using that unfolding Checksum_spec_def Let_def p1 p2 v by auto
  with main show ?thesis by auto
qed

theorem checksum_refines_spec_witness:
  "checksum LIN_V2 0x10 2 [0x01, 0x02] = Some 0xAC
   \<and> Checksum_spec LIN_V2 (unat (protectID 0x10)) [1, 2] = 0xAC
   \<and> checksum LIN_V2 0x3C 2 [0x01, 0x02] = Some 0xFC
   \<and> 255 - foldl end_around_add 0 [1, 2] mod 256 = 0xFC"
  using checksum_refines_spec [where numData = 2 and data = "[0x01, 0x02]" and ver = LIN_V2 and fid = "0x10"]
    checksum_refines_spec [where numData = 2 and data = "[0x01, 0x02]" and ver = LIN_V2 and fid = "0x3C"]
  by (simp add: checksum_def protectID_def chk_add_def Checksum_spec_def end_around_add_def)

text \<open>
  Claim C1, as amended. The claim says that every replacement of one payload byte, or
  of the ID byte, by a different value changes the checksum. The sum with end-around
  carry cannot tell 0x00 from 0xFF, and \<open>checksum\<close> recomputes the parity bits of the
  ID it is given and leaves the ID out for version 1 and the diagnostic frames. What
  holds: replacing the payload byte at \<open>i\<close> by a different byte \<open>b\<close> leaves the
  checksum unchanged exactly when the two bytes are 0x00 and 0xFF and something else
  that is summed (the seed, or another payload byte) is not zero; replacing the ID byte
  leaves it unchanged exactly when the version is 1, or the two bytes have the same
  protected ID (the same low six bits), or both are diagnostic IDs.
\<close>

theorem checksum_single_byte_corruption:
  assumes "unat numData \<le> length data"
  shows "(i < unat numData \<and> b \<noteq> data ! i \<longrightarrow>
           (checksum ver fid numData (data[i := b]) = checksum ver fid numData data) =
           ((data ! i = 0x00 \<and> b = 0xFF \<or> data ! i = 0xFF \<and> b = 0x00) \<and>
            \<not> ((ver = LIN_V1 \<or> protectID fid = 0x3C \<or> protectID fid = 0x7D) \<and>
               (\<forall>j<unat numData. j \<noteq> i \<longrightarrow> data ! j = 0x00))))
       \<and> (checksum ver gid numData data = checksum ver fid numData data) =
           (ver = LIN_V1 \<or> protectID gid = protectID fid \<or>
            (protectID gid = 0x3C \<or> protectID gid = 0x7D) \<and>
            (protectID fid = 0x3C \<or> protectID fid = 0x7D))"
  using checksum_payload_corruption [OF assms, of i b ver fid]
    checksum_id_corruption [OF assms, of ver gid fid]
  by blast

theorem checksum_single_byte_corruption_witness:
  "checksum LIN_V2 0x50 2 [0x01, 0x03] \<noteq> checksum LIN_V2 0x50 2 [0x01, 0x02]
   \<and> checksum LIN_V2 0x11 2 [0x01, 0x02] \<noteq> checksum LIN_V2 0x50 2 [0x01, 0x02]"
  using checksum_single_byte_corruption [where numData = 2 and data = "[0x01, 0x02]" and i = 1
      and b = "0x03" and ver = LIN_V2 and fid = "0x50" and gid = "0x11"]
  by (simp add: protectID_def)

theorem checksum_single_byte_corruption_counterexample:
  "checksum LIN_V2 0x50 2 [0x01, 0x00] = Some 0xAE
   \<and> checksum LIN_V2 0x50 2 [0x01, 0xFF] = Some 0xAE
   \<and> checksum LIN_V2 0x10 2 [0x01, 0x00] = Some 0xAE
   \<and> checksum LIN_V1 0x50 2 [0x01, 0x00] = Some 0xFE
   \<and> checksum LIN_V1 0x51 2 [0x01, 0x00] = Some 0xFE"
  by (simp add: checksum_def protectID_def chk_add_def)

section \<open>Buffers and the error branch\<close>

lemma replicate_numeral: "replicate (numeral k) x = x # replicate (numeral k - 1) x"
  by (simp add: numeral_eq_Suc)

lemmas LIN_error_defs = LIN_SUCCESS_def LIN_ERROR_STATE_def LIN_ERROR_ECHO_def
  LIN_ERROR_TIMEOUT_def LIN_ERROR_CHK_def LIN_ERROR_MISC_def

declare rx_copy.simps [simp del]

lemma abort_frame_eq:
  "unat (lenRx s) \<le> length (bufRx s) \<Longrightarrow>
   abort_frame flag s =
     Some (s\<lparr>error := error s OR flag, state := LIN_STATE_IDLE,
             bufRx := replicate (unat (lenRx s)) 0x00 @ drop (unat (lenRx s)) (bufRx s)\<rparr>)"
  by (simp add: abort_frame_def memset_buf_def)

lemma rx_copy_exact:
  "i \<le> n \<Longrightarrow> n \<le> length buf \<Longrightarrow> n - i \<le> length q \<Longrightarrow>
   rx_copy i n buf q = Some (take i buf @ take (n - i) q @ drop n buf, drop (n - i) q)"
proof (induction i n buf q rule: rx_copy.induct)
  case (1 i n buf q)
  show ?case
  proof (cases "i < n")
    case True
    then have q: "q \<noteq> []" using "1.prems" by auto
    then obtain x q0 where qx: "q = x # q0" by (cases q) auto
    have b: "buf_set buf i (fst (serial_read q)) = Some (buf[i := x])"
      using True "1.prems" qx by (simp add: buf_set_def)
    have "rx_copy (Suc i) n (buf[i := x]) (snd (serial_read q)) =
        Some (take (Suc i) (buf[i := x]) @ take (n - Suc i) (snd (serial_read q)) @ drop n (buf[i := x]),
              drop (n - Suc i) (snd (serial_read q)))"
      using True "1.prems" qx by (intro "1.IH" [OF True b]) auto
    moreover have "take (Suc i) (buf[i := x]) = take i buf @ [x]"
      using True "1.prems" by (simp add: take_Suc_conv_app_nth)
    moreover have "drop n (buf[i := x]) = drop n buf" using True by simp
    moreover have "take (n - i) q = x # take (n - Suc i) q0" "drop (n - i) q = drop (n - Suc i) q0"
      using True qx by (simp_all add: Suc_diff_Suc take_Cons' drop_Cons')
    ultimately show ?thesis using True b qx by (simp add: rx_copy.simps [of i n buf "x # q0"])
  next
    case False
    then have "i = n" using "1.prems" by simp
    then show ?thesis using "1.prems" by (simp add: rx_copy.simps [of n n buf q])
  qed
qed

lemma handlerSend_wrong_state:
  "state s \<noteq> LIN_STATE_BREAK \<Longrightarrow> handlerSend polls s = abort_frame LIN_ERROR_STATE s"
  by (simp add: handlerSend_def)

lemma handlerSend_timeout:
  "state s = LIN_STATE_BREAK \<Longrightarrow> break_wait polls s = [] \<Longrightarrow>
   handlerSend polls s = abort_frame LIN_ERROR_TIMEOUT (s\<lparr>pSerial := (pSerial s)\<lparr>rx_fifo := []\<rparr>\<rparr>)"
  by (simp add: handlerSend_def break_wait_def Let_def)

lemma handlerSend_echo:
  "state s = LIN_STATE_BREAK \<Longrightarrow> break_wait polls s = b # q \<Longrightarrow> b \<noteq> 0x00 \<Longrightarrow>
   bufRx s \<noteq> [] \<Longrightarrow>
   handlerSend polls s =
     abort_frame LIN_ERROR_ECHO (s\<lparr>bufRx := (bufRx s)[0 := b], pSerial := (pSerial s)\<lparr>rx_fifo := q\<rparr>\<rparr>)"
  by (simp add: handlerSend_def break_wait_def Let_def buf_set_def)

lemma handlerSend_frame:
  "state s = LIN_STATE_BREAK \<Longrightarrow> break_wait polls s = 0x00 # q \<Longrightarrow>
   bufRx s \<noteq> [] \<Longrightarrow> 1 \<le> unat (lenTx s) \<Longrightarrow> unat (lenTx s) \<le> length (bufTx s) \<Longrightarrow>
   handlerSend polls s =
     Some (s\<lparr>bufRx := (bufRx s)[0 := 0x00],
             pSerial := (pSerial s)\<lparr>rx_fifo := q, baud := unat (baudrate s),
                tx_log := tx_log (pSerial s) @ take (unat (lenTx s) - 1) (drop 1 (bufTx s))\<rparr>,
             state := LIN_STATE_FRAME,
             tasks := (if background s then tasks s @ [(wrapperReceive, durationFrame s)] else tasks s)\<rparr>)"
  by (simp add: handlerSend_def break_wait_def Let_def buf_set_def)

lemma handlerReceive_wrong_state:
  "state s \<noteq> LIN_STATE_FRAME \<Longrightarrow> handlerReceive polls s = abort_frame LIN_ERROR_STATE s"
  by (simp add: handlerReceive_def)

lemma handlerReceive_timeout:
  "state s = LIN_STATE_FRAME \<Longrightarrow> int (length (frame_wait polls s)) \<noteq> uint (lenRx s) - 1 \<Longrightarrow>
   handlerReceive polls s =
     abort_frame LIN_ERROR_TIMEOUT (s\<lparr>pSerial := (pSerial s)\<lparr>rx_fifo := frame_wait polls s\<rparr>\<rparr>)"
  by (simp add: handlerReceive_def frame_wait_def Let_def)

lemma frame_count:
  assumes "int (length q) = uint w - 1" "4 \<le> unat (w :: uint8_t)"
  shows "length q = unat w - 1"
proof -
  have "uint w = int (unat w)" by (rule uint_nat)
  with assms show ?thesis by linarith
qed

lemma length_rx_frame:
  assumes "engine_ok s" "state s = LIN_STATE_FRAME" "int (length (frame_wait polls s)) = uint (lenRx s) - 1"
  shows "length (rx_frame polls s) = 12"
proof -
  have ok: "4 \<le> unat (lenRx s)" "unat (lenRx s) \<le> 12" "length (bufRx s) = 12"
    using assms(1,2) by (auto simp: engine_ok_def)
  have len: "length (frame_wait polls s) = unat (lenRx s) - 1"
    using assms(3) ok(1) by (rule frame_count)
  have l1: "length (take 1 (bufRx s)) = 1" using ok(3) by simp
  have l2: "length (drop (unat (lenRx s)) (bufRx s)) = 12 - unat (lenRx s)" using ok(3) by simp
  show ?thesis unfolding rx_frame_def length_append l1 l2 len using ok(1,2) by linarith
qed

lemma handlerReceive_frame:
  assumes "engine_ok s" "state s = LIN_STATE_FRAME" "int (length (frame_wait polls s)) = uint (lenRx s) - 1"
  shows "handlerReceive polls s =
    (if frameType s = LIN_MASTER_REQUEST then
       (if take (unat (lenTx s)) (rx_frame polls s) \<noteq> take (unat (lenTx s)) (bufTx s)
        then abort_frame LIN_ERROR_ECHO
               (s\<lparr>bufRx := rx_frame polls s, pSerial := (pSerial s)\<lparr>rx_fifo := []\<rparr>\<rparr>)
        else Some (s\<lparr>bufRx := rx_frame polls s, pSerial := (pSerial s)\<lparr>rx_fifo := []\<rparr>,
                     state := LIN_STATE_IDLE\<rparr>))
     else if take 3 (rx_frame polls s) \<noteq> take 3 (bufTx s)
       then abort_frame LIN_ERROR_ECHO
              (s\<lparr>bufRx := rx_frame polls s, pSerial := (pSerial s)\<lparr>rx_fifo := []\<rparr>\<rparr>)
     else if checksum (version s) (rx_frame polls s ! 2) (lenRx s - 4) (drop 3 (rx_frame polls s))
               \<noteq> Some (rx_frame polls s ! (unat (lenRx s) - 1))
       then abort_frame LIN_ERROR_CHK
              (s\<lparr>bufRx := rx_frame polls s, pSerial := (pSerial s)\<lparr>rx_fifo := []\<rparr>\<rparr>)
     else Some (s\<lparr>bufRx := rx_frame polls s, pSerial := (pSerial s)\<lparr>rx_fifo := []\<rparr>,
                  rx_calls := rx_calls s @ [(rx_handler s, lenRx s - 4,
                                take (unat (lenRx s - 4)) (drop 3 (rx_frame polls s)))],
                  state := LIN_STATE_IDLE\<rparr>))"
proof -
  have ok: "4 \<le> unat (lenRx s)" "unat (lenRx s) \<le> 12" "length (bufRx s) = 12"
    "length (bufTx s) = 12" "unat (lenTx s) \<le> 12"
    using assms(1,2) by (auto simp: engine_ok_def)
  have len: "length (frame_wait polls s) = unat (lenRx s) - 1"
    using assms(3) ok(1) by (rule frame_count)
  have copy: "rx_copy 1 (unat (lenRx s)) (bufRx s) (frame_wait polls s) = Some (rx_frame polls s, [])"
    using ok len rx_copy_exact [of 1 "unat (lenRx s)" "bufRx s" "frame_wait polls s"]
    by (simp add: rx_frame_def)
  have l12: "length (rx_frame polls s) = 12" using assms by (rule length_rx_frame)
  have ne0: "lenRx s \<noteq> 0" using ok(1) by auto
  have idx: "unat (lenRx s) - Suc 0 < 12" using ok(1,2) by linarith
  have "(4 :: uint8_t) \<le> lenRx s" using ok(1) by (simp add: word_le_nat_alt)
  then have sub: "unat (lenRx s - 4) = unat (lenRx s) - 4" by (simp add: unat_sub)
  obtain c where c: "checksum (version s) (rx_frame polls s ! 2) (lenRx s - 4) (drop 3 (rx_frame polls s)) = Some c"
  proof -
    have "unat (lenRx s - 4) \<le> length (drop 3 (rx_frame polls s))" using ok l12 sub by simp
    then show ?thesis using that checksum_closed_form by blast
  qed
  show ?thesis
    using assms(2,3) ok l12 ne0 idx c copy
    by (simp add: handlerReceive_def frame_wait_def [symmetric] Let_def memcmp_ne_def buf_get_def)
qed

lemma engine_ok_abort:
  assumes "engine_ok s"
  shows "\<exists>s'. abort_frame flag s = Some s' \<and> engine_ok s' \<and> failed_with flag s s'
     \<and> rx_calls s' = rx_calls s \<and> frameType s' = frameType s \<and> lenRx s' = lenRx s
     \<and> lenTx s' = lenTx s \<and> bufTx s' = bufTx s \<and> rx_handler s' = rx_handler s
     \<and> version s' = version s \<and> background s' = background s"
  using assms
  by (simp add: engine_ok_def abort_frame_eq failed_with_def rx_zeroed_def)

lemma handlerSend_outcome:
  assumes "engine_ok s"
  shows "\<exists>s'. handlerSend polls s = Some s' \<and> engine_ok s'
     \<and> rx_calls s' = rx_calls s \<and> frameType s' = frameType s \<and> lenRx s' = lenRx s
     \<and> lenTx s' = lenTx s \<and> bufTx s' = bufTx s \<and> rx_handler s' = rx_handler s
     \<and> version s' = version s \<and> background s' = background s
     \<and> (state s' = LIN_STATE_FRAME \<and> error s' = error s \<and> bufRx s' ! 0 = 0x00
         \<or> failed_with LIN_ERROR_STATE s s' \<or> failed_with LIN_ERROR_TIMEOUT s s'
         \<or> failed_with LIN_ERROR_ECHO s s')"
proof (cases "state s = LIN_STATE_BREAK")
  case False
  then show ?thesis
    using engine_ok_abort [OF assms, of LIN_ERROR_STATE]
    by (auto simp: handlerSend_wrong_state)
next
  case True
  note brk = this
  have ok: "length (bufRx s) = 12" "length (bufTx s) = 12" "3 \<le> unat (lenTx s)"
    "unat (lenTx s) \<le> 12" using assms True by (auto simp: engine_ok_def)
  have ne: "bufRx s \<noteq> []" "1 \<le> unat (lenTx s)" "unat (lenTx s) \<le> length (bufTx s)"
    using ok by auto
  show ?thesis
  proof (cases "break_wait polls s")
    case Nil
    let ?s = "s\<lparr>pSerial := (pSerial s)\<lparr>rx_fifo := []\<rparr>\<rparr>"
    have "engine_ok ?s" using assms by (simp add: engine_ok_def)
    from engine_ok_abort [OF this, of LIN_ERROR_TIMEOUT] show ?thesis
      using brk Nil by (auto simp: handlerSend_timeout failed_with_def)
  next
    case (Cons b q)
    show ?thesis
    proof (cases "b = 0x00")
      case False
      let ?s = "s\<lparr>bufRx := (bufRx s)[0 := b], pSerial := (pSerial s)\<lparr>rx_fifo := q\<rparr>\<rparr>"
      have "engine_ok ?s" using assms by (simp add: engine_ok_def)
      from engine_ok_abort [OF this, of LIN_ERROR_ECHO] show ?thesis
        using brk Cons False ne by (auto simp: handlerSend_echo failed_with_def)
    next
      case True
      then show ?thesis
        using brk Cons ne assms by (auto simp: handlerSend_frame engine_ok_def)
    qed
  qed
qed

lemma handlerReceive_outcome:
  assumes "engine_ok s"
  shows "\<exists>s'. handlerReceive polls s = Some s' \<and> engine_ok s' \<and> state s' = LIN_STATE_IDLE
     \<and> frameType s' = frameType s \<and> lenRx s' = lenRx s
     \<and> lenTx s' = lenTx s \<and> bufTx s' = bufTx s \<and> rx_handler s' = rx_handler s
     \<and> version s' = version s \<and> background s' = background s
     \<and> (if response_ok polls s
          then error s' = error s \<and> bufRx s' = rx_frame polls s \<and>
               rx_calls s' = rx_calls s @ [(rx_handler s, lenRx s - 4,
                                take (unat (lenRx s - 4)) (drop 3 (rx_frame polls s)))]
          else rx_calls s' = rx_calls s \<and>
               (error s' = error s \<and> frameType s = LIN_MASTER_REQUEST \<and> state s = LIN_STATE_FRAME
                  \<and> bufRx s' = rx_frame polls s
                \<or> failed_with LIN_ERROR_STATE s s' \<or> failed_with LIN_ERROR_TIMEOUT s s'
                \<or> failed_with LIN_ERROR_ECHO s s' \<or> failed_with LIN_ERROR_CHK s s'))"
proof (cases "state s = LIN_STATE_FRAME")
  case False
  then show ?thesis
    using engine_ok_abort [OF assms, of LIN_ERROR_STATE]
    by (auto simp: handlerReceive_wrong_state response_ok_def failed_with_def)
next
  case True
  note frm = this
  show ?thesis
  proof (cases "int (length (frame_wait polls s)) = uint (lenRx s) - 1")
    case False
    let ?s = "s\<lparr>pSerial := (pSerial s)\<lparr>rx_fifo := frame_wait polls s\<rparr>\<rparr>"
    have "engine_ok ?s" using assms by (simp add: engine_ok_def)
    from engine_ok_abort [OF this, of LIN_ERROR_TIMEOUT] show ?thesis
      using frm False by (auto simp: handlerReceive_timeout failed_with_def response_ok_def)
  next
    case True
    note cnt = this
    let ?s = "s\<lparr>bufRx := rx_frame polls s, pSerial := (pSerial s)\<lparr>rx_fifo := []\<rparr>\<rparr>"
    have l12: "length (rx_frame polls s) = 12" using assms frm cnt by (rule length_rx_frame)
    have oks: "engine_ok ?s" using assms l12 by (simp add: engine_ok_def)
    have eq: "handlerReceive polls s =
      (if frameType s = LIN_MASTER_REQUEST then
         (if take (unat (lenTx s)) (rx_frame polls s) \<noteq> take (unat (lenTx s)) (bufTx s)
          then abort_frame LIN_ERROR_ECHO ?s
          else Some (?s\<lparr>state := LIN_STATE_IDLE\<rparr>))
       else if take 3 (rx_frame polls s) \<noteq> take 3 (bufTx s)
         then abort_frame LIN_ERROR_ECHO ?s
       else if checksum (version s) (rx_frame polls s ! 2) (lenRx s - 4) (drop 3 (rx_frame polls s))
                 \<noteq> Some (rx_frame polls s ! (unat (lenRx s) - 1))
         then abort_frame LIN_ERROR_CHK ?s
       else Some (?s\<lparr>rx_calls := rx_calls s @ [(rx_handler s, lenRx s - 4,
                                  take (unat (lenRx s - 4)) (drop 3 (rx_frame polls s)))],
                    state := LIN_STATE_IDLE\<rparr>))"
      using handlerReceive_frame [OF assms frm cnt] by simp
    have ft: "(frameType s \<noteq> LIN_MASTER_REQUEST) = (frameType s = LIN_SLAVE_RESPONSE)"
      by (cases "frameType s") simp_all
    show ?thesis
    proof (cases "frameType s = LIN_MASTER_REQUEST")
      case True
      note mr = this
      show ?thesis
      proof (cases "take (unat (lenTx s)) (rx_frame polls s) \<noteq> take (unat (lenTx s)) (bufTx s)")
        case True
        from engine_ok_abort [OF oks, of LIN_ERROR_ECHO] show ?thesis
          using mr True eq by (auto simp: failed_with_def response_ok_def)
      next
        case False
        then show ?thesis
          using mr eq frm oks by (auto simp: response_ok_def engine_ok_def)
      qed
    next
      case False
      note sr = this
      show ?thesis
      proof (cases "take 3 (rx_frame polls s) \<noteq> take 3 (bufTx s)")
        case True
        from engine_ok_abort [OF oks, of LIN_ERROR_ECHO] show ?thesis
          using sr True eq by (auto simp: failed_with_def response_ok_def)
      next
        case False
        note hd = this
        show ?thesis
        proof (cases "checksum (version s) (rx_frame polls s ! 2) (lenRx s - 4) (drop 3 (rx_frame polls s))
                 \<noteq> Some (rx_frame polls s ! (unat (lenRx s) - 1))")
          case True
          from engine_ok_abort [OF oks, of LIN_ERROR_CHK] show ?thesis
            using sr hd True eq by (auto simp: failed_with_def response_ok_def)
        next
          case False
          then have "response_ok polls s"
            using sr hd frm cnt ft by (simp add: response_ok_def)
          then show ?thesis
            using sr hd False eq oks by (auto simp: engine_ok_def)
        qed
      qed
    qed
  qed
qed

lemma unat_plus4:
  assumes "unat (n :: uint8_t) \<le> 8"
  shows "unat (n + 4) = unat n + 4" "unat (4 + n) = unat n + 4"
proof -
  have "unat n + unat (4 :: uint8_t) < 2 ^ LENGTH(8)" using assms by simp
  then have "unat (n + 4) = unat n + unat (4 :: uint8_t)" by (simp only: unat_add_lem)
  then show "unat (n + 4) = unat n + 4" by simp
  then show "unat (4 + n) = unat n + 4" by (simp add: add.commute)
qed

lemma request_busy:
  assumes "state s \<noteq> LIN_STATE_IDLE"
  shows "sendMasterRequest fid numData data env s =
           map_option (Pair (Some LIN_ERROR_STATE)) (abort_frame LIN_ERROR_STATE s)"
    and "receiveSlaveResponse fid numData h env' s =
           map_option (Pair (Some LIN_ERROR_STATE)) (abort_frame LIN_ERROR_STATE s)"
  using assms
  by (cases "abort_frame LIN_ERROR_STATE s";
      simp add: sendMasterRequest_def receiveSlaveResponse_def)+

lemma sendMasterRequest_idle:
  assumes "engine_ok s" "state s = LIN_STATE_IDLE" "unat numData \<le> 8" "unat numData \<le> length data"
  shows "\<exists>s2. sendMasterRequest fid numData data env s =
            (if background s
             then Some (None, s2\<lparr>tasks := tasks s @ [(wrapperSend, durationBreak s)]\<rparr>)
             else handlerSend (fst env) s2 \<bind>
                    (\<lambda>s3. handlerReceive (snd env) s3 \<bind> (\<lambda>s4. Some (None, s4))))
        \<and> engine_ok s2 \<and> state s2 = LIN_STATE_BREAK \<and> frameType s2 = LIN_MASTER_REQUEST
        \<and> error s2 = error s \<and> rx_calls s2 = rx_calls s \<and> background s2 = background s
        \<and> lenTx s2 = numData + 4 \<and> lenRx s2 = numData + 4 \<and> bufRx s2 = bufRx s"
proof -
  obtain c where c: "checksum (version s) (protectID fid) numData data = Some c"
    using checksum_closed_form [OF assms(4)] by blast
  have len: "length (bufTx s) = 12" "bufTx s \<noteq> []" using assms(1) by (auto simp: engine_ok_def)
  define s2 where "s2 =
     s\<lparr>frameType := LIN_MASTER_REQUEST,
       bufTx := (take 3 ((bufTx s)[0 := 0x00, Suc 0 := 0x55, 2 := protectID fid]) @
                 take (unat numData) data @ drop (3 + unat numData) (bufTx s))
                [3 + unat numData := c],
       lenTx := numData + 4, lenRx := numData + 4,
       pSerial := (pSerial s)\<lparr>rx_fifo := [], baud := unat (baudrate s) div 2,
                    tx_log := tx_log (pSerial s) @ [0x00]\<rparr>,
       state := LIN_STATE_BREAK\<rparr>"
  have eq: "sendMasterRequest fid numData data env s =
            (if background s
             then Some (None, s2\<lparr>tasks := tasks s @ [(wrapperSend, durationBreak s)]\<rparr>)
             else handlerSend (fst env) s2 \<bind>
                    (\<lambda>s3. handlerReceive (snd env) s3 \<bind> (\<lambda>s4. Some (None, s4))))"
    using assms(2-4) c len
    by (simp add: sendMasterRequest_def Let_def buf_set_def memcpy_buf_def s2_def nth_append)
  have ok: "engine_ok s2"
    using assms len unat_plus4 [OF assms(3)] by (simp add: s2_def engine_ok_def)
  show ?thesis using eq ok by (intro exI [of _ s2]) (simp add: s2_def)
qed

lemma receiveSlaveResponse_idle:
  assumes "engine_ok s" "state s = LIN_STATE_IDLE" "unat numData \<le> 8"
  shows "\<exists>s2. receiveSlaveResponse fid numData h env s =
            (if background s
             then Some (None, s2\<lparr>tasks := tasks s @ [(wrapperSend, durationBreak s)]\<rparr>)
             else handlerSend (fst env) s2 \<bind>
                    (\<lambda>s3. handlerReceive (snd (snd env))
                            (s3\<lparr>pSerial := (pSerial s3)\<lparr>rx_fifo := frame_wait (fst (snd env)) s3\<rparr>\<rparr>)
                          \<bind> (\<lambda>s4. Some (None, s4))))
        \<and> engine_ok s2 \<and> state s2 = LIN_STATE_BREAK \<and> frameType s2 = LIN_SLAVE_RESPONSE
        \<and> error s2 = error s \<and> rx_calls s2 = rx_calls s \<and> background s2 = background s
        \<and> lenTx s2 = 3 \<and> lenRx s2 = 4 + numData \<and> bufRx s2 = bufRx s \<and> rx_handler s2 = h"
proof -
  have len: "length (bufTx s) = 12" "bufTx s \<noteq> []" using assms(1) by (auto simp: engine_ok_def)
  define s2 where "s2 =
     s\<lparr>frameType := LIN_SLAVE_RESPONSE,
       bufTx := (bufTx s)[0 := 0x00, Suc 0 := 0x55, 2 := protectID fid],
       lenTx := 3, lenRx := 4 + numData, rx_handler := h,
       pSerial := (pSerial s)\<lparr>rx_fifo := [], baud := unat (baudrate s) div 2,
                    tx_log := tx_log (pSerial s) @ [0x00]\<rparr>,
       state := LIN_STATE_BREAK\<rparr>"
  have eq: "receiveSlaveResponse fid numData h env s =
            (if background s
             then Some (None, s2\<lparr>tasks := tasks s @ [(wrapperSend, durationBreak s)]\<rparr>)
             else handlerSend (fst env) s2 \<bind>
                    (\<lambda>s3. handlerReceive (snd (snd env))
                            (s3\<lparr>pSerial := (pSerial s3)\<lparr>rx_fifo := frame_wait (fst (snd env)) s3\<rparr>\<rparr>)
                          \<bind> (\<lambda>s4. Some (None, s4))))"
    using assms(2-3) len
    by (simp add: receiveSlaveResponse_def Let_def buf_set_def s2_def frame_wait_def)
  have ok: "engine_ok s2"
    using assms len unat_plus4 [OF assms(3)] by (simp add: s2_def engine_ok_def)
  show ?thesis using eq ok by (intro exI [of _ s2]) (simp add: s2_def)
qed

section \<open>Sample states and the scenarios of the specification\<close>

lemmas sample_defs = LIN_Master_0_def idle_engine_def busy_engine_def short_engine_def
  frame_engine_def response_engine_def

lemma frame_engine_reachable: "handlerSend [[0x00]] busy_engine = Some frame_engine"
  by (simp add: handlerSend_def sample_defs buf_set_def Let_def)

lemma response_engine_reachable:
  "do { (r, s) \<leftarrow> receiveSlaveResponse 0x20 4 (Decoder 1) ([], [], []) idle_engine;
        handlerSend [[0x00]] s } = Some response_engine"
  by (simp add: receiveSlaveResponse_def handlerSend_def sample_defs buf_set_def protectID_def Let_def)

lemma sample_ok: "engine_ok LIN_Master_0" "engine_ok idle_engine" "engine_ok busy_engine"
  "engine_ok short_engine" "engine_ok frame_engine" "engine_ok response_engine"
  by (simp_all add: engine_ok_def sample_defs)


lemma idle_engine_reachable:
  "do { (r, s) \<leftarrow> sendMasterRequest 0x10 2 [0x01, 0x02] ([], [])
                     (begin_LIN_Master 19200 LIN_V2 True LIN_Master_0);
        s \<leftarrow> handlerSend [[0x00]] s;
        handlerReceive [[0x55, 0x50, 0x01, 0x02, 0xAC]] s } = Some idle_engine"
  by (simp add: sendMasterRequest_def handlerSend_def handlerReceive_def begin_LIN_Master_def
      LIN_Master_0_def idle_engine_def buf_set_def memcpy_buf_def checksum_def protectID_def
      chk_add_def memcmp_ne_def rx_copy.simps LIN_error_defs Let_def abort_frame_def memset_buf_def)

lemma busy_engine_reachable:
  "sendMasterRequest 0x10 2 [0x01, 0x02] ([], []) idle_engine = Some (None, busy_engine)"
  by (simp add: sendMasterRequest_def busy_engine_def
      idle_engine_def buf_set_def memcpy_buf_def checksum_def protectID_def
      chk_add_def LIN_error_defs Let_def)

lemma short_engine_reachable:
  "receiveSlaveResponse 0x20 0 (Decoder 1) ([], [], []) idle_engine = Some (None, short_engine)"
  by (simp add: receiveSlaveResponse_def busy_engine_def short_engine_def
      idle_engine_def buf_set_def protectID_def LIN_error_defs Let_def)

lemma scenario_master_request_echoed:
  "\<exists>s'. sendMasterRequest 0x10 2 [0x01, 0x02] ([[0x00]], [[0x55, 0x50, 0x01, 0x02, 0xAC]])
           (begin_LIN_Master 19200 LIN_V2 False LIN_Master_0) = Some (None, s')
      \<and> error s' = LIN_SUCCESS \<and> state s' = LIN_STATE_IDLE"
  by (simp add: sendMasterRequest_def handlerSend_def handlerReceive_def begin_LIN_Master_def
      LIN_Master_0_def buf_set_def memcpy_buf_def checksum_def protectID_def chk_add_def
      memcmp_ne_def rx_copy.simps LIN_error_defs Let_def abort_frame_def memset_buf_def)

lemma scenario_master_request_echo_flipped:
  "\<exists>s'. sendMasterRequest 0x10 2 [0x01, 0x02] ([[0x00]], [[0x55, 0x50, 0x01, 0x03, 0xAC]])
           (begin_LIN_Master 19200 LIN_V2 False LIN_Master_0) = Some (None, s')
      \<and> error s' = LIN_ERROR_ECHO \<and> state s' = LIN_STATE_IDLE"
  by (simp add: sendMasterRequest_def handlerSend_def handlerReceive_def begin_LIN_Master_def
      LIN_Master_0_def buf_set_def memcpy_buf_def checksum_def protectID_def chk_add_def
      memcmp_ne_def rx_copy.simps LIN_error_defs Let_def abort_frame_def memset_buf_def
      replicate_numeral)

lemma scenario_slave_response:
  "\<exists>s'. receiveSlaveResponse 0x20 4 (Decoder 1)
           ([[0x00]], [[0x55, 0x20, 0x01, 0x02, 0x03, 0x04, 0xD5]], [])
           (begin_LIN_Master 19200 LIN_V2 False LIN_Master_0) = Some (None, s')
      \<and> rx_calls s' = [(Decoder 1, 4, [0x01, 0x02, 0x03, 0x04])]
      \<and> error s' = LIN_SUCCESS \<and> state s' = LIN_STATE_IDLE"
  by (simp add: receiveSlaveResponse_def handlerSend_def handlerReceive_def begin_LIN_Master_def
      LIN_Master_0_def buf_set_def buf_get_def checksum_def protectID_def chk_add_def
      memcmp_ne_def rx_copy.simps LIN_error_defs Let_def abort_frame_def memset_buf_def)

lemma scenario_slave_response_bad_checksum:
  "\<exists>s'. receiveSlaveResponse 0x20 4 (Decoder 1)
           ([[0x00]], [[0x55, 0x20, 0x01, 0x02, 0x03, 0x04, 0xD6]], [])
           (begin_LIN_Master 19200 LIN_V2 False LIN_Master_0) = Some (None, s')
      \<and> rx_calls s' = [] \<and> error s' = LIN_ERROR_CHK \<and> state s' = LIN_STATE_IDLE"
  by (simp add: receiveSlaveResponse_def handlerSend_def handlerReceive_def begin_LIN_Master_def
      LIN_Master_0_def buf_set_def buf_get_def checksum_def protectID_def chk_add_def
      memcmp_ne_def rx_copy.simps LIN_error_defs Let_def abort_frame_def memset_buf_def
      replicate_numeral)

section \<open>What a call leaves behind\<close>

lemma or_superset_trans:
  fixes a b c :: uint8_t
  assumes "a OR b = b" "b OR c = c"
  shows "a OR c = c"
  by (metis assms or.assoc)

lemma failed_with_superset: "failed_with flag s s' \<Longrightarrow> error s OR error s' = error s'"
  by (simp add: failed_with_def or.assoc [symmetric])

lemma failed_with_flagged:
  assumes "failed_with flag s s'" "flag \<noteq> 0"
  shows "error s' \<noteq> LIN_SUCCESS"
  using assms by (auto simp: failed_with_def LIN_SUCCESS_def or_eq_0_iff)

lemma flags_nonzero:
  "LIN_ERROR_STATE \<noteq> 0" "LIN_ERROR_ECHO \<noteq> 0" "LIN_ERROR_TIMEOUT \<noteq> 0" "LIN_ERROR_CHK \<noteq> 0"
  by (simp_all add: LIN_error_defs)

lemma handlerSend_total:
  assumes "engine_ok s"
  shows "\<exists>s'. handlerSend polls s = Some s' \<and> engine_ok s' \<and> error s OR error s' = error s'
     \<and> rx_calls s' = rx_calls s"
  using handlerSend_outcome [OF assms, of polls] by (auto dest: failed_with_superset)

lemma handlerReceive_total:
  assumes "engine_ok s"
  shows "\<exists>s'. handlerReceive polls s = Some s' \<and> engine_ok s' \<and> state s' = LIN_STATE_IDLE
     \<and> error s OR error s' = error s'"
  using handlerReceive_outcome [OF assms, of polls]
  by (auto dest: failed_with_superset split: if_splits)

lemma engine_ok_tasks [simp]: "engine_ok (s\<lparr>tasks := t\<rparr>) = engine_ok s"
  by (simp add: engine_ok_def)

lemma engine_ok_fifo [simp]:
  "engine_ok (s\<lparr>pSerial := (pSerial s)\<lparr>rx_fifo := q\<rparr>\<rparr>) = engine_ok s"
  by (simp add: engine_ok_def)

lemma sendMasterRequest_total:
  assumes "engine_ok s" "unat numData \<le> 8" "unat numData \<le> length data"
  shows "\<exists>r s'. sendMasterRequest fid numData data env s = Some (r, s') \<and> engine_ok s'
     \<and> error s OR error s' = error s' \<and> rx_calls s' = rx_calls s
     \<and> (state s \<noteq> LIN_STATE_IDLE \<or>
          lenTx s' = numData + 4 \<and> lenRx s' = numData + 4 \<and> (background s \<or> state s' = LIN_STATE_IDLE))"
proof (cases "state s = LIN_STATE_IDLE")
  case False
  then show ?thesis
    using engine_ok_abort [OF assms(1), of LIN_ERROR_STATE]
    by (auto simp: request_busy dest: failed_with_superset)
next
  case True
  obtain s2 where s2: "sendMasterRequest fid numData data env s =
            (if background s
             then Some (None, s2\<lparr>tasks := tasks s @ [(wrapperSend, durationBreak s)]\<rparr>)
             else handlerSend (fst env) s2 \<bind>
                    (\<lambda>s3. handlerReceive (snd env) s3 \<bind> (\<lambda>s4. Some (None, s4))))"
    and ok2: "engine_ok s2" and p2: "frameType s2 = LIN_MASTER_REQUEST" "error s2 = error s"
      "rx_calls s2 = rx_calls s" "lenTx s2 = numData + 4" "lenRx s2 = numData + 4"
    using sendMasterRequest_idle [OF assms(1) True assms(2,3), of fid env] by blast
  show ?thesis
  proof (cases "background s")
    case True
    then show ?thesis using s2 ok2 p2 by simp
  next
    case False
    obtain s3 where s3: "handlerSend (fst env) s2 = Some s3" and ok3: "engine_ok s3"
      and p3: "error s2 OR error s3 = error s3" "rx_calls s3 = rx_calls s2"
        "frameType s3 = frameType s2" "lenTx s3 = lenTx s2" "lenRx s3 = lenRx s2"
      using handlerSend_outcome [OF ok2, of "fst env"] by (auto dest: failed_with_superset)
    have nr: "\<not> response_ok (snd env) s3" using p3 p2 by (simp add: response_ok_def)
    obtain s4 where s4: "handlerReceive (snd env) s3 = Some s4" and ok4: "engine_ok s4"
      and p4: "error s3 OR error s4 = error s4" "rx_calls s4 = rx_calls s3"
        "state s4 = LIN_STATE_IDLE" "lenTx s4 = lenTx s3" "lenRx s4 = lenRx s3"
      using handlerReceive_outcome [OF ok3, of "snd env"] nr by (auto dest: failed_with_superset)
    have "error s OR error s4 = error s4"
      using p3(1) p4(1) unfolding p2(2) by (rule or_superset_trans)
    then show ?thesis using False s2 s3 s4 ok4 p2 p3 p4 by simp
  qed
qed

lemma receiveSlaveResponse_total:
  assumes "engine_ok s" "unat numData \<le> 8"
  shows "\<exists>r s'. receiveSlaveResponse fid numData h env s = Some (r, s') \<and> engine_ok s'
     \<and> error s OR error s' = error s'
     \<and> (state s \<noteq> LIN_STATE_IDLE \<and> rx_calls s' = rx_calls s \<or>
          state s = LIN_STATE_IDLE \<and> lenTx s' = 3 \<and> lenRx s' = 4 + numData \<and>
          (background s \<and> rx_calls s' = rx_calls s \<or>
           \<not> background s \<and> state s' = LIN_STATE_IDLE \<and>
           (rx_calls s' = rx_calls s @ [(h, numData, take (unat numData) (drop 3 (bufRx s')))]
              \<and> error s' = error s
            \<or> rx_calls s' = rx_calls s \<and> error s' \<noteq> LIN_SUCCESS)))"
proof (cases "state s = LIN_STATE_IDLE")
  case False
  then show ?thesis
    using engine_ok_abort [OF assms(1), of LIN_ERROR_STATE]
    by (auto simp: request_busy dest: failed_with_superset)
next
  case True
  note idle = this
  obtain s2 where s2: "receiveSlaveResponse fid numData h env s =
            (if background s
             then Some (None, s2\<lparr>tasks := tasks s @ [(wrapperSend, durationBreak s)]\<rparr>)
             else handlerSend (fst env) s2 \<bind>
                    (\<lambda>s3. handlerReceive (snd (snd env))
                            (s3\<lparr>pSerial := (pSerial s3)\<lparr>rx_fifo := frame_wait (fst (snd env)) s3\<rparr>\<rparr>)
                          \<bind> (\<lambda>s4. Some (None, s4))))"
    and ok2: "engine_ok s2" and p2: "frameType s2 = LIN_SLAVE_RESPONSE" "error s2 = error s"
      "rx_calls s2 = rx_calls s" "lenTx s2 = 3" "lenRx s2 = 4 + numData" "rx_handler s2 = h"
    using receiveSlaveResponse_idle [OF assms(1) True assms(2), of fid h env] by blast
  show ?thesis
  proof (cases "background s")
    case True
    then show ?thesis using idle s2 ok2 p2 by simp
  next
    case False
    note blocking = this
    obtain s3 where s3: "handlerSend (fst env) s2 = Some s3" and ok3: "engine_ok s3"
      and p3: "rx_calls s3 = rx_calls s2"
        "frameType s3 = frameType s2" "lenTx s3 = lenTx s2" "lenRx s3 = lenRx s2"
        "rx_handler s3 = rx_handler s2"
      and o3: "state s3 = LIN_STATE_FRAME \<and> error s3 = error s2
         \<or> failed_with LIN_ERROR_STATE s2 s3 \<or> failed_with LIN_ERROR_TIMEOUT s2 s3
         \<or> failed_with LIN_ERROR_ECHO s2 s3"
      using handlerSend_outcome [OF ok2, of "fst env"] by blast
    define s3' where "s3' = s3\<lparr>pSerial := (pSerial s3)\<lparr>rx_fifo := frame_wait (fst (snd env)) s3\<rparr>\<rparr>"
    have ok3': "engine_ok s3'" using ok3 by (simp add: s3'_def)
    have p3': "rx_calls s3' = rx_calls s" "frameType s3' = LIN_SLAVE_RESPONSE" "lenTx s3' = 3"
      "lenRx s3' = 4 + numData" "rx_handler s3' = h" "error s3' = error s3" "state s3' = state s3"
      using p3 p2 by (simp_all add: s3'_def)
    have m3: "error s OR error s3 = error s3"
      using o3 p2(2) by (auto dest: failed_with_superset)
    obtain s4 where s4: "handlerReceive (snd (snd env)) s3' = Some s4" and ok4: "engine_ok s4"
      and p4: "state s4 = LIN_STATE_IDLE" "lenTx s4 = lenTx s3'" "lenRx s4 = lenRx s3'"
      and o4: "if response_ok (snd (snd env)) s3'
          then error s4 = error s3' \<and> bufRx s4 = rx_frame (snd (snd env)) s3' \<and>
               rx_calls s4 = rx_calls s3' @ [(rx_handler s3', lenRx s3' - 4,
                                take (unat (lenRx s3' - 4)) (drop 3 (rx_frame (snd (snd env)) s3')))]
          else rx_calls s4 = rx_calls s3' \<and>
               (error s4 = error s3' \<and> frameType s3' = LIN_MASTER_REQUEST \<and> state s3' = LIN_STATE_FRAME
                  \<and> bufRx s4 = rx_frame (snd (snd env)) s3'
                \<or> failed_with LIN_ERROR_STATE s3' s4 \<or> failed_with LIN_ERROR_TIMEOUT s3' s4
                \<or> failed_with LIN_ERROR_ECHO s3' s4 \<or> failed_with LIN_ERROR_CHK s3' s4)"
      using handlerReceive_outcome [OF ok3', of "snd (snd env)"] by blast
    have m4: "error s3 OR error s4 = error s4"
      using o4 p3'(6) by (auto dest: failed_with_superset split: if_splits)
    have mono: "error s OR error s4 = error s4" using m3 m4 by (rule or_superset_trans)
    have calls: "rx_calls s4 = rx_calls s @ [(h, numData, take (unat numData) (drop 3 (bufRx s4)))]
              \<and> error s4 = error s
            \<or> rx_calls s4 = rx_calls s \<and> error s4 \<noteq> LIN_SUCCESS"
    proof (cases "response_ok (snd (snd env)) s3'")
      case True
      then have "state s3 = LIN_STATE_FRAME" using p3'(7) by (simp add: response_ok_def)
      then have "error s3 = error s" using o3 p2(2) by (auto simp: failed_with_def)
      then show ?thesis using True o4 p3' by simp
    next
      case False
      then have "failed_with LIN_ERROR_STATE s3' s4 \<or> failed_with LIN_ERROR_TIMEOUT s3' s4
                \<or> failed_with LIN_ERROR_ECHO s3' s4 \<or> failed_with LIN_ERROR_CHK s3' s4"
        using o4 p3'(2) by auto
      then have "error s4 \<noteq> LIN_SUCCESS"
        using flags_nonzero by (auto dest: failed_with_flagged)
      then show ?thesis using False o4 p3'(1) by simp
    qed
    have run: "receiveSlaveResponse fid numData h env s = Some (None, s4)"
      using blocking s2 s3 s4 by (simp add: s3'_def)
    show ?thesis
      using run ok4 mono calls idle blocking p4 p3'(3,4) by simp
  qed
qed














lemma reachable_engine_ok: "reachable s \<Longrightarrow> engine_ok s"
proof (induction rule: reachable.induct)
  case reach_fresh
  show ?case by (rule sample_ok)
next
  case (reach_begin s b v bg)
  then show ?case by (simp add: engine_ok_def begin_LIN_Master_def)
next
  case (reach_end s)
  then show ?case by (simp add: engine_ok_def end_LIN_Master_def)
next
  case (reach_send s numData data fid env r s')
  then show ?case using sendMasterRequest_total [of s numData data fid env] by auto
next
  case (reach_receive s numData fid h env' r s')
  then show ?case using receiveSlaveResponse_total [of s numData fid h env'] by auto
next
  case (reach_handlerSend s polls s')
  then show ?case using handlerSend_total [of s polls] by auto
next
  case (reach_handlerReceive s polls s')
  then show ?case using handlerReceive_total [of s polls] by auto
next
  case (reach_arrival s bytes)
  then show ?case by simp
qed

lemma samples_reachable:
  "reachable idle_engine" "reachable busy_engine" "reachable short_engine"
  "reachable frame_engine" "reachable response_engine"
proof -
  have b: "reachable (begin_LIN_Master 19200 LIN_V2 True LIN_Master_0)"
    by (intro reach_begin reach_fresh)
  obtain r s1 where s1: "sendMasterRequest 0x10 2 [0x01, 0x02] ([], [])
       (begin_LIN_Master 19200 LIN_V2 True LIN_Master_0) = Some (r, s1)"
    and s2: "handlerSend [[0x00]] s1 \<bind> handlerReceive [[0x55, 0x50, 0x01, 0x02, 0xAC]] = Some idle_engine"
    using idle_engine_reachable by (auto simp: bind_eq_Some_conv)
  obtain s3 where s3: "handlerSend [[0x00]] s1 = Some s3"
    and s4: "handlerReceive [[0x55, 0x50, 0x01, 0x02, 0xAC]] s3 = Some idle_engine"
    using s2 by (auto simp: bind_eq_Some_conv)
  have "reachable s1" by (rule reach_send [OF b _ _ s1]) simp_all
  then have "reachable s3" using s3 by (rule reach_handlerSend)
  then show i: "reachable idle_engine" using s4 by (rule reach_handlerReceive)
  show bz: "reachable busy_engine"
    by (rule reach_send [OF i _ _ busy_engine_reachable]) simp_all
  show "reachable short_engine"
    by (rule reach_receive [OF i _ short_engine_reachable]) simp_all
  show "reachable frame_engine" using bz frame_engine_reachable by (rule reach_handlerSend)
  obtain r' s5 where s5: "receiveSlaveResponse 0x20 4 (Decoder 1) ([], [], []) idle_engine = Some (r', s5)"
    and s6: "handlerSend [[0x00]] s5 = Some response_engine"
    using response_engine_reachable by (auto simp: bind_eq_Some_conv)
  have "reachable s5" by (rule reach_receive [OF i _ s5]) simp_all
  then show "reachable response_engine" using s6 by (rule reach_handlerSend)
qed

section \<open>Claims about the engine\<close>

text \<open>
  Claim C4, as amended. A request made while the state is not idle returns
  \<open>LIN_ERROR_STATE\<close>, sets that flag and forces the state to idle; it leaves \<open>bufTx\<close>,
  \<open>lenTx\<close> and \<open>lenRx\<close> as they were, but it clears the first \<open>lenRx\<close> bytes of
  \<open>bufRx\<close> (the bytes beyond them stay), so the receive buffer of the transaction in
  flight is not left unchanged.
\<close>

theorem request_while_busy:
  assumes "state s \<noteq> LIN_STATE_IDLE" "unat (lenRx s) \<le> length (bufRx s)"
  shows "\<exists>s'. sendMasterRequest fid numData data env s = Some (Some LIN_ERROR_STATE, s')
     \<and> receiveSlaveResponse fid numData h env' s = Some (Some LIN_ERROR_STATE, s')
     \<and> s' = s\<lparr>error := error s OR LIN_ERROR_STATE, state := LIN_STATE_IDLE,
               bufRx := replicate (unat (lenRx s)) 0x00 @ drop (unat (lenRx s)) (bufRx s)\<rparr>
     \<and> bufTx s' = bufTx s \<and> lenTx s' = lenTx s \<and> lenRx s' = lenRx s"
  using assms by (simp add: request_busy abort_frame_eq)

theorem request_while_busy_witness:
  "\<exists>s'. sendMasterRequest 0x11 1 [0x07] ([], []) busy_engine = Some (Some LIN_ERROR_STATE, s')
     \<and> receiveSlaveResponse 0x11 1 (Decoder 2) ([], [], []) busy_engine = Some (Some LIN_ERROR_STATE, s')
     \<and> bufTx s' = bufTx busy_engine \<and> lenTx s' = lenTx busy_engine \<and> lenRx s' = lenRx busy_engine"
  using request_while_busy [where s = busy_engine and fid = "0x11" and numData = 1
      and data = "[0x07]" and env = "([], [])" and h = "Decoder 2" and env' = "([], [], [])"]
  by (simp add: sample_defs)

theorem request_while_busy_counterexample:
  "state busy_engine = LIN_STATE_BREAK
   \<and> bufRx busy_engine = [0x00, 0x55, 0x50, 0x01, 0x02, 0xAC, 0, 0, 0, 0, 0, 0]
   \<and> map_option fst (sendMasterRequest 0x11 1 [0x07] ([], []) busy_engine) = Some (Some LIN_ERROR_STATE)
   \<and> map_option (bufRx \<circ> snd) (sendMasterRequest 0x11 1 [0x07] ([], []) busy_engine)
       = Some [0, 0, 0, 0, 0, 0, 0, 0, 0, 0, 0, 0]"
  by (simp add: sendMasterRequest_def abort_frame_def memset_buf_def sample_defs replicate_numeral)











text \<open>
  Claim C9, as amended. \<open>end\<close> sets the state to off and resets the error flags; it
  does not touch the buffers, their lengths, the frame type, the handler or the tasks
  already scheduled: nothing is zeroed.
\<close>

theorem end_keeps_buffers:
  "state (end_LIN_Master s) = LIN_STATE_OFF \<and> error (end_LIN_Master s) = LIN_SUCCESS
   \<and> bufTx (end_LIN_Master s) = bufTx s \<and> bufRx (end_LIN_Master s) = bufRx s
   \<and> lenTx (end_LIN_Master s) = lenTx s \<and> lenRx (end_LIN_Master s) = lenRx s
   \<and> frameType (end_LIN_Master s) = frameType s \<and> rx_handler (end_LIN_Master s) = rx_handler s
   \<and> tasks (end_LIN_Master s) = tasks s"
  by (simp add: end_LIN_Master_def)

theorem end_keeps_buffers_counterexample:
  "state (end_LIN_Master idle_engine) = LIN_STATE_OFF
   \<and> bufTx (end_LIN_Master idle_engine) = [0x00, 0x55, 0x50, 0x01, 0x02, 0xAC, 0, 0, 0, 0, 0, 0]
   \<and> bufRx (end_LIN_Master idle_engine) = [0x00, 0x55, 0x50, 0x01, 0x02, 0xAC, 0, 0, 0, 0, 0, 0]"
  by (simp add: end_LIN_Master_def idle_engine_def)

text \<open>
  Claim C10: \<open>getState\<close> returns the state converted to bool: false exactly for
  \<open>LIN_STATE_OFF\<close>, and true for idle, break and frame alike.
\<close>

theorem getState_bool:
  "getState s = (state s \<noteq> LIN_STATE_OFF)
   \<and> getState (s\<lparr>state := LIN_STATE_IDLE\<rparr>)
   \<and> getState (s\<lparr>state := LIN_STATE_BREAK\<rparr>)
   \<and> getState (s\<lparr>state := LIN_STATE_FRAME\<rparr>)
   \<and> \<not> getState (s\<lparr>state := LIN_STATE_OFF\<rparr>)"
  by (cases "state s") (simp_all add: getState_def)

end
